theory Spec2Isabelle
  imports Main "HOL-Library.Word" "HOL-Library.AList" "HOL-Library.Sublist"
begin

section \<open>JavaScript strings\<close>

text \<open>
  A JavaScript string is a sequence of UTF-16 code units; \<open>length\<close>, \<open>substring\<close>,
  \<open>includes\<close> and the regular expressions of the source (none has the \<open>u\<close> flag) all
  work on code units. A code unit is a 16-bit word, a string is a list of them, and
  \<open>lit\<close> turns an ASCII literal of the source into such a list.
\<close>

type_synonym code_unit = "16 word"
type_synonym jsstring = "code_unit list"

definition lit :: "string \<Rightarrow> jsstring" where
  "lit s = map of_char s"

text \<open>\<open>s.startsWith(t)\<close>, \<open>s.endsWith(t)\<close> and \<open>s.includes(t)\<close>.\<close>

fun startsWith :: "jsstring \<Rightarrow> jsstring \<Rightarrow> bool" where
  "startsWith s [] = True"
| "startsWith [] (d # t) = False"
| "startsWith (c # s) (d # t) = (c = d \<and> startsWith s t)"

definition endsWith :: "jsstring \<Rightarrow> jsstring \<Rightarrow> bool" where
  "endsWith s t = startsWith (rev s) (rev t)"

fun includes_str :: "jsstring \<Rightarrow> jsstring \<Rightarrow> bool" where
  "includes_str [] t = (t = [])"
| "includes_str (c # s) t = (startsWith (c # s) t \<or> includes_str s t)"

text \<open>
  \<open>s.toLowerCase()\<close>, code unit by code unit: the letters A to Z and the Latin-1 capitals
  U+00C0 to U+00DE (the multiplication sign U+00D7 apart) move up by 32. This is what
  \<open>String.prototype.toLowerCase\<close> does on strings whose code units are below U+0100; the
  Unicode case tables for the other code units are not part of the repository, and those
  code units are left as they are here, where the built-in folds some of them (U+212A to
  \<open>k\<close>, U+041A to U+043A) and can change the length (U+0130 becomes two code units).
  No general theorem below unfolds this definition; it is evaluated on ASCII text only.
\<close>

definition lower_unit :: "code_unit \<Rightarrow> code_unit" where
  "lower_unit c =
     (if (0x41 \<le> c \<and> c \<le> 0x5A) \<or> (0xC0 \<le> c \<and> c \<le> 0xDE \<and> c \<noteq> 0xD7)
      then c + 32 else c)"

definition toLowerCase :: "jsstring \<Rightarrow> jsstring" where
  "toLowerCase s = map lower_unit s"

section \<open>Regular expressions of the source\<close>

text \<open>
  Every regular expression literal of the repository is a sequence of single-character
  atoms (a literal character, \<open>\s\<close>, \<open>.\<close>, \<open>[^c]\<close>), each taken once or under a greedy
  \<open>+\<close> or \<open>*\<close>, with an optional \<open>^\<close> in front. There is no alternation, no group and
  no flag.
\<close>

datatype atom = Lit code_unit | Space | AnyChar | NotLit code_unit

datatype quant = One | Plus | Star

datatype regex = Regex (anchored: bool) (items: "(atom \<times> quant) list")

text \<open>
  \<open>\s\<close> is WhiteSpace or LineTerminator of ECMAScript: tab, line feed, vertical tab, form
  feed, carriage return, space, no-break space, U+1680, U+2000 to U+200A, U+2028, U+2029,
  U+202F, U+205F, U+3000 and U+FEFF. Without the \<open>s\<close> flag \<open>.\<close> is any code unit but
  the four line terminators.
\<close>

definition isWhiteSpace :: "code_unit \<Rightarrow> bool" where
  "isWhiteSpace c =
     ((0x09 \<le> c \<and> c \<le> 0x0D) \<or> c = 0x20 \<or> c = 0xA0 \<or> c = 0x1680 \<or>
      (0x2000 \<le> c \<and> c \<le> 0x200A) \<or> c = 0x2028 \<or> c = 0x2029 \<or> c = 0x202F \<or>
      c = 0x205F \<or> c = 0x3000 \<or> c = 0xFEFF)"

definition isLineTerminator :: "code_unit \<Rightarrow> bool" where
  "isLineTerminator c = (c = 0x0A \<or> c = 0x0D \<or> c = 0x2028 \<or> c = 0x2029)"

fun atom_matches :: "atom \<Rightarrow> code_unit \<Rightarrow> bool" where
  "atom_matches (Lit d) c = (c = d)"
| "atom_matches Space c = isWhiteSpace c"
| "atom_matches AnyChar c = (\<not> isLineTerminator c)"
| "atom_matches (NotLit d) c = (c \<noteq> d)"

text \<open>
  The backtracking matcher at one start position: the length of the match the engine
  finds there, or \<open>None\<close>. A greedy quantifier first takes one more character and gives
  it back when the rest of the pattern fails.
\<close>

fun match_here :: "(atom \<times> quant) list \<Rightarrow> jsstring \<Rightarrow> nat option" where
  "match_here [] s = Some 0"
| "match_here ((a, One) # r) [] = None"
| "match_here ((a, One) # r) (c # s) =
     (if atom_matches a c then map_option Suc (match_here r s) else None)"
| "match_here ((a, Plus) # r) [] = None"
| "match_here ((a, Plus) # r) (c # s) =
     (if atom_matches a c then map_option Suc (match_here ((a, Star) # r) s) else None)"
| "match_here ((a, Star) # r) [] = match_here r []"
| "match_here ((a, Star) # r) (c # s) =
     (if atom_matches a c
      then (case match_here ((a, Star) # r) s of
              Some n \<Rightarrow> Some (Suc n)
            | None \<Rightarrow> match_here r (c # s))
      else match_here r (c # s))"

text \<open>The leftmost start position at which the pattern matches, tried from the left.\<close>

fun search :: "(atom \<times> quant) list \<Rightarrow> jsstring \<Rightarrow> bool" where
  "search p [] = (match_here p [] \<noteq> None)"
| "search p (c # s) = (match_here p (c # s) \<noteq> None \<or> search p s)"

text \<open>\<open>pattern.test(s)\<close>: with \<open>^\<close> only position 0 is tried.\<close>

definition test :: "regex \<Rightarrow> jsstring \<Rightarrow> bool" where
  "test re s = (if anchored re then match_here (items re) s \<noteq> None else search (items re) s)"

text \<open>
  \<open>String(pattern)\<close>, as the template literal of \<open>validateCommand\<close> renders it: the
  source text between slashes. The only character the literals of the repository escape
  is the slash.
\<close>

fun atom_source :: "atom \<Rightarrow> jsstring" where
  "atom_source (Lit c) = (if c = 0x2F then [0x5C, 0x2F] else [c])"
| "atom_source Space = [0x5C, 0x73]"
| "atom_source AnyChar = [0x2E]"
| "atom_source (NotLit c) = [0x5B, 0x5E, c, 0x5D]"

fun quant_source :: "quant \<Rightarrow> jsstring" where
  "quant_source One = []"
| "quant_source Plus = [0x2B]"
| "quant_source Star = [0x2A]"

definition toString :: "regex \<Rightarrow> jsstring" where
  "toString re =
     [0x2F] @ (if anchored re then [0x5E] else []) @
     concat (map (\<lambda>(a, q). atom_source a @ quant_source q) (items re)) @ [0x2F]"

text \<open>Notation for writing the literals down: a run of literal characters, \<open>\s+\<close>,
  \<open>\s*\<close>, \<open>.*\<close>, \<open>[^>]\<close>.\<close>

definition chars :: "string \<Rightarrow> (atom \<times> quant) list" where
  "chars s = map (\<lambda>c. (Lit (of_char c), One)) s"

abbreviation spaces1 :: "(atom \<times> quant) list" where
  "spaces1 \<equiv> [(Space, Plus)]"

abbreviation spaces0 :: "(atom \<times> quant) list" where
  "spaces0 \<equiv> [(Space, Star)]"

abbreviation anything :: "(atom \<times> quant) list" where
  "anything \<equiv> [(AnyChar, Star)]"

section \<open>The bash tool: command validation\<close>

record validation =
  isValid :: bool
  reason :: "jsstring option"

definition dangerousPatterns :: "regex list" where
  "dangerousPatterns =
    [Regex False (chars ''rm'' @ spaces1 @ chars ''-rf''),
     Regex False (chars ''sudo'' @ spaces1),
     Regex False (chars ''chmod'' @ spaces1 @ chars ''777''),
     Regex False (chars ''chown'' @ spaces1),
     Regex False (chars ''passwd''),
     Regex False (chars ''useradd''),
     Regex False (chars ''userdel''),
     Regex False (chars ''groupadd''),
     Regex False (chars ''groupdel''),
     Regex False (chars ''mount''),
     Regex False (chars ''umount''),
     Regex False (chars ''fdisk''),
     Regex False (chars ''mkfs''),
     Regex False (chars ''dd'' @ spaces1 @ chars ''if=''),
     Regex False (chars ''nc'' @ spaces1),
     Regex False (chars ''netcat''),
     Regex False (chars ''wget'' @ spaces1 @ anything @ chars ''-O'' @ spaces1 @ chars ''/dev/shm''),
     Regex False (chars ''curl'' @ spaces1 @ anything @ chars ''-o'' @ spaces1 @ chars ''/dev/shm''),
     Regex False (chars ''>'' @ spaces0 @ chars ''/etc/''),
     Regex False (chars ''>>'' @ spaces0 @ chars ''/etc/''),
     Regex False (chars ''cat'' @ spaces1 @ chars ''>'' @ anything @ chars ''/etc/''),
     Regex False (chars ''echo'' @ spaces1 @ anything @ chars ''>'' @ spaces0 @ chars ''/etc/'')]"

definition safeCommands :: "regex list" where
  "safeCommands =
    [Regex True (chars ''curl'' @ spaces1),
     Regex True (chars ''wget'' @ spaces1),
     Regex True (chars ''ping'' @ spaces1),
     Regex True (chars ''nslookup'' @ spaces1),
     Regex True (chars ''dig'' @ spaces1),
     Regex True (chars ''date''),
     Regex True (chars ''uptime''),
     Regex True (chars ''whoami''),
     Regex True (chars ''pwd''),
     Regex True (chars ''ls'' @ spaces1),
     Regex True (chars ''cat'' @ spaces1),
     Regex True (chars ''grep'' @ spaces1),
     Regex True (chars ''head'' @ spaces1),
     Regex True (chars ''tail'' @ spaces1),
     Regex True (chars ''wc'' @ spaces1),
     Regex True (chars ''sort'' @ spaces1),
     Regex True (chars ''uniq'' @ spaces1),
     Regex True (chars ''cut'' @ spaces1),
     Regex True (chars ''awk'' @ spaces1),
     Regex True (chars ''sed'' @ spaces1),
     Regex True (chars ''find'' @ spaces1),
     Regex True (chars ''which'' @ spaces1),
     Regex True (chars ''whereis'' @ spaces1),
     Regex True (chars ''ps'' @ spaces1),
     Regex True (chars ''top'' @ spaces0),
     Regex True (chars ''df'' @ spaces1),
     Regex True (chars ''du'' @ spaces1),
     Regex True (chars ''free'' @ spaces0),
     Regex True (chars ''uname'' @ spaces0),
     Regex True (chars ''hostname''),
     Regex True (chars ''id'' @ spaces0),
     Regex True (chars ''groups'' @ spaces0),
     Regex True (chars ''env'' @ spaces0),
     Regex True (chars ''printenv'' @ spaces0),
     Regex True (chars ''history'' @ spaces0),
     Regex True (chars ''echo'' @ spaces1 @ [(NotLit 0x3E, One)]),
     Regex True (chars ''printf'' @ spaces1)]"

text \<open>
  \<open>validateCommand\<close>: the \<open>for\<close> loop returns at the first dangerous pattern that
  matches; only when none does is the allow list consulted with \<open>some\<close>.
\<close>

definition validateCommand :: "jsstring \<Rightarrow> validation" where
  "validateCommand command =
     (case find (\<lambda>pattern. test pattern command) dangerousPatterns of
        Some pattern \<Rightarrow>
          \<lparr>isValid = False,
           reason = Some (lit ''Command contains potentially dangerous pattern: '' @ toString pattern)\<rparr>
      | None \<Rightarrow>
          (let isSafe = list_ex (\<lambda>pattern. test pattern command) safeCommands
           in if \<not> isSafe
              then \<lparr>isValid = False,
                    reason = Some (lit ''Command not in the list of allowed safe commands'')\<rparr>
              else \<lparr>isValid = True, reason = None\<rparr>))"


section \<open>The bash tool: pending commands and approval\<close>

text \<open>
  A thrown \<open>Error\<close> is its message. What the outside world does (reading a file,
  running a subprocess) is an input of the model: either it throws, with a message, or
  it returns a value.
\<close>

datatype error = Error jsstring

datatype 'a attempt = Threw jsstring | Returned 'a

record pending_command =
  command :: jsstring
  description :: jsstring
  timestamp :: nat

text \<open>
  \<open>this.pendingCommands\<close> is a \<open>Map\<close>: the entries in insertion order, one per key.
  \<open>get\<close> is \<open>map_of\<close>, \<open>set\<close> is \<open>AList.update\<close> (an existing key keeps its place
  and takes the new value, a new key goes to the end) and \<open>delete\<close> is \<open>AList.delete\<close>.
\<close>

type_synonym pending_map = "(jsstring \<times> pending_command) list"

text \<open>The decimal text of a non-negative integer, as a template literal renders it.\<close>

fun decimal :: "nat \<Rightarrow> jsstring" where
  "decimal n = (if n < 10 then [0x30 + of_nat n] else decimal (n div 10) @ [0x30 + of_nat (n mod 10)])"

declare decimal.simps [simp del]

text \<open>\<open>s.substr(start, len)\<close> for non-negative arguments.\<close>

definition substr :: "jsstring \<Rightarrow> nat \<Rightarrow> nat \<Rightarrow> jsstring" where
  "substr s start len = take len (drop start s)"

text \<open>
  What one call of \<open>_call\<close> reads from its environment: \<open>Date.now()\<close> in milliseconds,
  the text \<open>Math.random().toString(36)\<close>, and the later \<open>new Date()\<close>.
\<close>

record environment =
  date_now :: nat
  random_text :: jsstring
  new_date :: nat

definition generateCommandId :: "environment \<Rightarrow> jsstring" where
  "generateCommandId env =
     lit ''cmd_'' @ decimal (date_now env) @ lit ''_'' @ substr (random_text env) 2 9"

text \<open>
  The objects the tool returns through \<open>JSON.stringify\<close>: an approval request
  (\<open>commandId\<close>, \<open>command\<close>, \<open>description\<close>; its \<open>message\<close> is made of these), a command
  result (\<open>command\<close>, \<open>output\<close>, \<open>warnings\<close>, with \<open>success: true\<close>) and a rejection
  (\<open>commandId\<close>, \<open>command\<close>).
\<close>

datatype response =
    ApprovalRequest jsstring jsstring jsstring
  | CommandResult jsstring jsstring jsstring
  | CommandRejected jsstring jsstring

definition formatApprovalRequest :: "jsstring \<Rightarrow> jsstring \<Rightarrow> jsstring \<Rightarrow> response" where
  "formatApprovalRequest commandId cmd descr =
     ApprovalRequest commandId cmd descr"

text \<open>
  The input of \<open>_call\<close> after \<open>JSON.parse\<close>: a syntax error, or an object whose
  \<open>command\<close> and \<open>description\<close> are strings.
\<close>

datatype parsed = SyntaxError | Object jsstring jsstring

definition bash_call ::
  "pending_map \<Rightarrow> environment \<Rightarrow> parsed \<Rightarrow> (error + response) \<times> pending_map" where
  "bash_call pendingCommands env input =
     (case input of
        SyntaxError \<Rightarrow>
          (Inl (Error (lit ''Invalid input format. Expected JSON with command and description.'')),
           pendingCommands)
      | Object cmd descr \<Rightarrow>
          (let validation = validateCommand cmd
           in if \<not> isValid validation
              then (Inl (Error (lit ''Command rejected: '' @
                           (case reason validation of Some r \<Rightarrow> r | None \<Rightarrow> lit ''undefined''))),
                    pendingCommands)
              else (let commandId = generateCommandId env
                    in (Inr (formatApprovalRequest commandId cmd descr),
                        AList.update commandId
                          \<lparr>command = cmd, description = descr,
                           timestamp = new_date env\<rparr>
                          pendingCommands))))"

text \<open>
  \<open>executeApprovedCommand\<close> is asynchronous. It runs in two synchronous segments: the
  lookup up to \<open>await execAsync\<close>, and, once the subprocess has settled, the removal
  and the result. \<open>finishExecution\<close> is the second segment, on the map as it is by
  then; \<open>executeApprovedCommand\<close> is the call with nothing else scheduled in between.
\<close>

definition finishExecution ::
  "pending_map \<Rightarrow> jsstring \<Rightarrow> pending_command \<Rightarrow> (jsstring \<times> jsstring) attempt \<Rightarrow>
   (error + response) \<times> pending_map" where
  "finishExecution pendingCommands commandId commandData outcome =
     (case outcome of
        Returned (stdout, stderr) \<Rightarrow>
          (Inr (CommandResult (command commandData) stdout stderr),
           AList.delete commandId pendingCommands)
      | Threw message \<Rightarrow>
          (Inl (Error (lit ''Command execution failed: '' @ message)),
           AList.delete commandId pendingCommands))"

definition executeApprovedCommand ::
  "pending_map \<Rightarrow> jsstring \<Rightarrow> (jsstring \<times> jsstring) attempt \<Rightarrow>
   (error + response) \<times> pending_map" where
  "executeApprovedCommand pendingCommands commandId outcome =
     (case map_of pendingCommands commandId of
        None \<Rightarrow>
          (Inl (Error (lit ''Command '' @ commandId @ lit '' not found or already executed'')),
           pendingCommands)
      | Some commandData \<Rightarrow> finishExecution pendingCommands commandId commandData outcome)"

definition rejectCommand :: "pending_map \<Rightarrow> jsstring \<Rightarrow> (error + response) \<times> pending_map" where
  "rejectCommand pendingCommands commandId =
     (case map_of pendingCommands commandId of
        None \<Rightarrow> (Inl (Error (lit ''Command '' @ commandId @ lit '' not found'')), pendingCommands)
      | Some commandData \<Rightarrow>
          (Inr (CommandRejected commandId (command commandData)),
           AList.delete commandId pendingCommands))"

definition getPendingCommands ::
  "pending_map \<Rightarrow> (jsstring \<times> jsstring \<times> jsstring \<times> nat) list" where
  "getPendingCommands pendingCommands =
     map (\<lambda>(id, data). (id, command data, description data, timestamp data)) pendingCommands"

text \<open>
  Histories of the map. Each operation is one synchronous segment: a \<open>_call\<close>, a whole
  uninterrupted approval, the resumption of an approval that was suspended at its
  \<open>await\<close>, or a rejection.
\<close>

datatype operation =
    Call environment parsed
  | Approve jsstring "(jsstring \<times> jsstring) attempt"
  | Resume jsstring pending_command "(jsstring \<times> jsstring) attempt"
  | Reject jsstring

fun apply_operation :: "pending_map \<Rightarrow> operation \<Rightarrow> pending_map" where
  "apply_operation m (Call env input) = snd (bash_call m env input)"
| "apply_operation m (Approve commandId outcome) = snd (executeApprovedCommand m commandId outcome)"
| "apply_operation m (Resume commandId commandData outcome) =
     snd (finishExecution m commandId commandData outcome)"
| "apply_operation m (Reject commandId) = snd (rejectCommand m commandId)"

definition run :: "pending_map \<Rightarrow> operation list \<Rightarrow> pending_map" where
  "run m ops = foldl apply_operation m ops"

text \<open>Whether an operation is a \<open>_call\<close> that generates the given id.\<close>

fun generates :: "jsstring \<Rightarrow> operation \<Rightarrow> bool" where
  "generates commandId (Call env input) = (generateCommandId env = commandId)"
| "generates commandId _ = False"

text \<open>
  The schedule in which a rejection of the same id is handled while the approved command
  is still running: the lookup of \<open>executeApprovedCommand\<close>, then \<open>rejectCommand\<close>, then
  the rest of \<open>executeApprovedCommand\<close>. The result is what the approval returned, what
  the rejection returned, and the map at the end. When the lookup fails nothing of the
  approval is left to interleave with.
\<close>

definition reject_during_approval ::
  "pending_map \<Rightarrow> jsstring \<Rightarrow> (jsstring \<times> jsstring) attempt \<Rightarrow>
   (error + response) \<times> (error + response) \<times> pending_map" where
  "reject_during_approval pendingCommands commandId outcome =
     (case map_of pendingCommands commandId of
        None \<Rightarrow>
          (let (rejected, m) = rejectCommand pendingCommands commandId
           in (Inl (Error (lit ''Command '' @ commandId @ lit '' not found or already executed'')),
               rejected, m))
      | Some commandData \<Rightarrow>
          (let (rejected, m) = rejectCommand pendingCommands commandId;
               (approved, m') = finishExecution m commandId commandData outcome
           in (approved, rejected, m')))"

text \<open>The two schedules in which the calls do not overlap.\<close>

definition approve_then_reject ::
  "pending_map \<Rightarrow> jsstring \<Rightarrow> (jsstring \<times> jsstring) attempt \<Rightarrow>
   (error + response) \<times> (error + response) \<times> pending_map" where
  "approve_then_reject pendingCommands commandId outcome =
     (let (approved, m) = executeApprovedCommand pendingCommands commandId outcome;
          (rejected, m') = rejectCommand m commandId
      in (approved, rejected, m'))"

definition reject_then_approve ::
  "pending_map \<Rightarrow> jsstring \<Rightarrow> (jsstring \<times> jsstring) attempt \<Rightarrow>
   (error + response) \<times> (error + response) \<times> pending_map" where
  "reject_then_approve pendingCommands commandId outcome =
     (let (rejected, m) = rejectCommand pendingCommands commandId;
          (approved, m') = executeApprovedCommand m commandId outcome
      in (approved, rejected, m'))"


section \<open>The agent: fallback routing\<close>

text \<open>
  The three tools, named by the keys of \<open>this.tools\<close>, and the input the fallback hands
  to the selected tool: an SQL statement, the query itself, or the JSON text of an object
  with a \<open>command\<close> and a \<open>description\<close>.
\<close>

datatype tool = sqlite_database | document_search | bash_command

datatype tool_input = Sql jsstring | Terms jsstring | Json jsstring jsstring

text \<open>The keyword chain of \<open>processWithFallback\<close>, on the lower-cased query.\<close>

definition selectTool :: "jsstring \<Rightarrow> tool \<times> jsstring" where
  "selectTool lowerQuery =
     (if includes_str lowerQuery (lit ''hora'') \<or>
         includes_str lowerQuery (lit ''time'') \<or>
         includes_str lowerQuery (lit ''data'') \<or>
         includes_str lowerQuery (lit ''date'')
      then (bash_command, lit ''Query about time/date - using bash command'')
      else if includes_str lowerQuery (lit ''artista'') \<or>
              includes_str lowerQuery (lit ''album'') \<or>
              includes_str lowerQuery (lit ''m'' @ [0xFA] @ lit ''sica'') \<or>
              includes_str lowerQuery (lit ''music'') \<or>
              includes_str lowerQuery (lit ''track'') \<or>
              includes_str lowerQuery (lit ''venda'') \<or>
              includes_str lowerQuery (lit ''sale'')
      then (sqlite_database, lit ''Query about music data - using SQLite database'')
      else if includes_str lowerQuery (lit ''economia'') \<or>
              includes_str lowerQuery (lit ''economics'') \<or>
              includes_str lowerQuery (lit ''livro'') \<or>
              includes_str lowerQuery (lit ''book'') \<or>
              includes_str lowerQuery (lit ''documento'') \<or>
              includes_str lowerQuery (lit ''document'')
      then (document_search, lit ''Query about economics/documents - using document search'')
      else (document_search, lit ''Defaulting to document search''))"

text \<open>The \<open>switch\<close> that builds the tool input.\<close>

definition generateInput :: "tool \<Rightarrow> jsstring \<Rightarrow> jsstring \<Rightarrow> tool_input" where
  "generateInput toolName query lowerQuery =
     (case toolName of
        sqlite_database \<Rightarrow>
          (if includes_str lowerQuery (lit ''quantos'') \<or> includes_str lowerQuery (lit ''how many'')
           then Sql (lit ''SELECT COUNT(*) as count FROM Artist'')
           else if includes_str lowerQuery (lit ''artista'') \<or> includes_str lowerQuery (lit ''artist'')
           then Sql (lit ''SELECT * FROM Artist LIMIT 10'')
           else if includes_str lowerQuery (lit ''album'') \<or> includes_str lowerQuery (lit ''album'')
           then Sql (lit ''SELECT * FROM Album LIMIT 10'')
           else Sql (lit ''SELECT * FROM Artist LIMIT 5''))
      | document_search \<Rightarrow> Terms query
      | bash_command \<Rightarrow>
          (if includes_str lowerQuery (lit ''hora'') \<or> includes_str lowerQuery (lit ''time'')
           then Json (lit ''date'') (lit ''Get current date and time'')
           else Json (lit ''date'') (lit ''Get current date and time'')))"

text \<open>
  \<open>processWithFallback\<close> up to the tool call: the selected tool, the reasoning and the
  input the tool is called with.
\<close>

definition processWithFallback :: "jsstring \<Rightarrow> tool \<times> jsstring \<times> tool_input" where
  "processWithFallback query =
     (let lowerQuery = toLowerCase query;
          (toolName, reasoning) = selectTool lowerQuery;
          toolInput = generateInput toolName query lowerQuery
      in (toolName, reasoning, toolInput))"

section \<open>The document tool\<close>

text \<open>
  \<open>s.split(separator)\<close> with a regular expression and no limit, as
  \<open>RegExp.prototype[Symbol.split]\<close> runs it: \<open>acc\<close> holds the characters from the end of
  the last separator (\<open>p\<close>) to the position under test (\<open>q\<close>). A match that ends at
  \<open>p\<close>, an empty match right after a separator, is skipped.
\<close>

function split_from :: "(atom \<times> quant) list \<Rightarrow> jsstring \<Rightarrow> jsstring \<Rightarrow> jsstring list" where
  "split_from sep acc [] = [acc]"
| "split_from sep acc (c # s) =
     (case match_here sep (c # s) of
        None \<Rightarrow> split_from sep (acc @ [c]) s
      | Some e \<Rightarrow>
          (if e = 0 \<and> acc = [] then split_from sep (acc @ [c]) s
           else acc # split_from sep [] (drop e (c # s))))"
  by pat_completeness auto
termination
  by (relation "measures [\<lambda>(sep, acc, s). length s, \<lambda>(sep, acc, s). length acc]") auto

definition split :: "(atom \<times> quant) list \<Rightarrow> jsstring \<Rightarrow> jsstring list" where
  "split sep s =
     (if s = [] then (if match_here sep [] \<noteq> None then [] else [s])
      else split_from sep [] s)"

text \<open>\<open>xs.join(sep)\<close>.\<close>

fun join :: "jsstring \<Rightarrow> jsstring list \<Rightarrow> jsstring" where
  "join sep [] = []"
| "join sep [x] = x"
| "join sep (x # y # ys) = x @ sep @ join sep (y # ys)"

text \<open>
  \<open>xs.sort(compare)\<close>. The sort is stable, and for a consistent comparator its result is
  the one of insertion from the right: an element goes in front of the first later
  element it does not have to follow.
\<close>

fun insert_sorted :: "('a \<Rightarrow> 'a \<Rightarrow> int) \<Rightarrow> 'a \<Rightarrow> 'a list \<Rightarrow> 'a list" where
  "insert_sorted compare x [] = [x]"
| "insert_sorted compare x (y # ys) =
     (if compare x y \<le> 0 then x # y # ys else y # insert_sorted compare x ys)"

definition array_sort :: "('a \<Rightarrow> 'a \<Rightarrow> int) \<Rightarrow> 'a list \<Rightarrow> 'a list" where
  "array_sort compare xs = foldr (insert_sorted compare) xs []"

text \<open>
  The objects of the result list, \<open>source\<close>, \<open>relevance\<close> and \<open>content\<close>; the ones
  collected in the loop carry the search terms too.
\<close>

record document_match =
  source :: jsstring
  relevance :: nat
  content :: jsstring

record document_result = document_match +
  searchTerms :: "jsstring list"

definition calculateRelevance :: "jsstring \<Rightarrow> jsstring list \<Rightarrow> nat" where
  "calculateRelevance text terms =
     (let words = split [(Space, Plus)] text
      in foldl (\<lambda>score term.
                  score + length (filter (\<lambda>word. includes_str (toLowerCase word) term) words))
           0 terms)"

text \<open>
  The body of the loop over the text files, for one directory entry: its name and what
  \<open>readFile\<close> gives for it. A file that cannot be read is skipped with a warning.
  The file name is the \<open>basename\<close> of the entry joined to the directory, the name of the
  entry itself. The value is the object pushed on \<open>results\<close>, if one is.
\<close>

definition scoreFile :: "jsstring list \<Rightarrow> jsstring \<times> jsstring attempt \<Rightarrow> document_result option" where
  "scoreFile terms file =
     (case snd file of
        Threw message \<Rightarrow> None
      | Returned text \<Rightarrow>
          (let fileName = fst file;
               relevanceScore = calculateRelevance (toLowerCase text) terms
           in if relevanceScore > 0
              then (let paragraphs = split ([(Lit 0x0A, One), (Space, Star), (Lit 0x0A, One)]) text;
                        relevantParagraphs =
                          take 3 (filter (\<lambda>paragraph.
                                    list_ex (\<lambda>term. includes_str (toLowerCase paragraph) term) terms)
                                  paragraphs)
                    in if length relevantParagraphs > 0
                       then Some \<lparr>source = fileName, relevance = relevanceScore,
                                  content = join [0x0A, 0x0A] relevantParagraphs,
                                  searchTerms = terms\<rparr>
                       else None)
              else None))"

fun collect :: "jsstring list \<Rightarrow> (jsstring \<times> jsstring attempt) list \<Rightarrow> document_result list" where
  "collect terms [] = []"
| "collect terms (file # files) =
     (case scoreFile terms file of
        None \<Rightarrow> collect terms files
      | Some result \<Rightarrow> result # collect terms files)"

text \<open>The object built for each top result: the content cut at 500 code units.\<close>

definition excerpt :: "document_result \<Rightarrow> document_match" where
  "excerpt result =
     \<lparr>source = source result, relevance = relevance result,
      content = take 500 (content result) @
                (if length (content result) > 500 then lit ''...'' else [])\<rparr>"

text \<open>
  What \<open>_call\<close> returns: the message object when nothing is found, or the query with
  the result list.
\<close>

datatype search_output = NoDocuments jsstring | Results jsstring "document_match list"

text \<open>
  \<open>_call\<close> of the document tool, on the query and on what \<open>readdir\<close> gives: an error, or
  the entries of the directory in the order they are listed.
\<close>

definition document_call ::
  "jsstring \<Rightarrow> (jsstring \<times> jsstring attempt) list attempt \<Rightarrow> error + search_output" where
  "document_call query readdir =
     (case readdir of
        Threw message \<Rightarrow> Inl (Error (lit ''Error searching documents: '' @ message))
      | Returned files \<Rightarrow>
          (let textFiles = filter (\<lambda>file. endsWith (fst file) (lit ''.txt'')) files;
               terms = split [(Space, Plus)] (toLowerCase query);
               results = collect terms textFiles;
               sorted = array_sort (\<lambda>a b. int (relevance b) - int (relevance a)) results;
               topResults = take 3 sorted
           in if length topResults = 0 then Inr (NoDocuments query)
              else Inr (Results query (map excerpt topResults))))"

text \<open>The result list of an output; the message object has none.\<close>

fun matches :: "error + search_output \<Rightarrow> document_match list" where
  "matches (Inr (Results query ms)) = ms"
| "matches _ = []"

section \<open>Sample inputs\<close>

text \<open>A clock reading, a random text and the entry they give, used in the examples below.\<close>

abbreviation sample_env :: environment where
  "sample_env \<equiv>
     \<lparr>date_now = 1730000000000, random_text = lit ''0.4fzyo82mvyr'', new_date = 1730000000001\<rparr>"

abbreviation sample_id :: jsstring where
  "sample_id \<equiv> lit ''cmd_1730000000000_4fzyo82mv''"

abbreviation sample_entry :: pending_command where
  "sample_entry \<equiv>
     \<lparr>command = lit ''date'', description = lit ''Get current date and time'',
      timestamp = 1730000000001\<rparr>"

text \<open>A directory listing: five readable text files, one that cannot be read and one that is
  not a text file.\<close>

abbreviation sample_corpus :: "(jsstring \<times> jsstring attempt) list" where
  "sample_corpus \<equiv>
     [(lit ''a.txt'', Returned (lit ''tax'')),
      (lit ''b.txt'', Returned (lit ''Taxes tax'')),
      (lit ''c.md'', Returned (lit ''tax tax tax'')),
      (lit ''d.txt'', Returned (lit ''tax'')),
      (lit ''e.txt'', Threw (lit ''EACCES'')),
      (lit ''f.txt'', Returned (lit ''tax law'')),
      (lit ''g.txt'', Returned (lit ''law''))]"

section \<open>Verification: strings and patterns\<close>

lemma startsWith_iff: "startsWith s t \<longleftrightarrow> (\<exists>v. s = t @ v)"
  by (induction s t rule: startsWith.induct) auto

lemma includes_str_iff: "includes_str s t \<longleftrightarrow> (\<exists>u v. s = u @ t @ v)"
proof (induction s)
  case Nil
  then show ?case by auto
next
  case (Cons c s)
  show ?case
  proof
    assume "includes_str (c # s) t"
    then consider "startsWith (c # s) t" | "includes_str s t" by auto
    then show "\<exists>u v. c # s = u @ t @ v"
    proof cases
      case 1
      then obtain v where "c # s = t @ v" by (auto simp: startsWith_iff)
      then have "c # s = [] @ t @ v" by simp
      then show ?thesis by blast
    next
      case 2
      then obtain u v where "s = u @ t @ v" using Cons.IH by blast
      then have "c # s = (c # u) @ t @ v" by simp
      then show ?thesis by blast
    qed
  next
    assume "\<exists>u v. c # s = u @ t @ v"
    then obtain u v where uv: "c # s = u @ t @ v" by blast
    show "includes_str (c # s) t"
    proof (cases u)
      case Nil
      with uv have "startsWith (c # s) t" by (auto simp: startsWith_iff)
      then show ?thesis by simp
    next
      case (Cons d u')
      with uv have "s = u' @ t @ v" by simp
      then have "includes_str s t" using Cons.IH by blast
      then show ?thesis by simp
    qed
  qed
qed

lemma match_here_literal:
  "match_here (map (\<lambda>c. (Lit c, One)) t) s \<noteq> None \<longleftrightarrow> startsWith s t"
proof (induction t arbitrary: s)
  case Nil
  then show ?case by simp
next
  case (Cons d t)
  then show ?case by (cases s) auto
qed

lemma search_iff: "search p s \<longleftrightarrow> (\<exists>u w. s = u @ w \<and> match_here p w \<noteq> None)"
proof (induction s)
  case Nil
  then show ?case by simp
next
  case (Cons c s)
  show ?case
  proof
    assume "search p (c # s)"
    then consider "match_here p (c # s) \<noteq> None" | "search p s" by auto
    then show "\<exists>u w. c # s = u @ w \<and> match_here p w \<noteq> None"
    proof cases
      case 1
      then have "c # s = [] @ (c # s) \<and> match_here p (c # s) \<noteq> None" by simp
      then show ?thesis by blast
    next
      case 2
      then obtain u w where "s = u @ w" "match_here p w \<noteq> None" using Cons.IH by blast
      then have "c # s = (c # u) @ w \<and> match_here p w \<noteq> None" by simp
      then show ?thesis by blast
    qed
  next
    assume "\<exists>u w. c # s = u @ w \<and> match_here p w \<noteq> None"
    then obtain u w where uw: "c # s = u @ w" "match_here p w \<noteq> None" by blast
    show "search p (c # s)"
    proof (cases u)
      case Nil
      with uw(1) have "w = c # s" by simp
      with uw(2) have "match_here p (c # s) \<noteq> None" by simp
      then show ?thesis by simp
    next
      case (Cons d u')
      with uw(1) have "s = u' @ w" by simp
      with uw(2) have "search p s" using Cons.IH by blast
      then show ?thesis by simp
    qed
  qed
qed

lemma chars_literal: "chars w = map (\<lambda>c. (Lit c, One)) (lit w)"
  by (simp add: chars_def lit_def)

lemma test_unanchored_literal:
  "test (Regex False (chars w)) s \<longleftrightarrow> (\<exists>u v. s = u @ lit w @ v)"
proof -
  have "test (Regex False (chars w)) s \<longleftrightarrow> search (map (\<lambda>c. (Lit c, One)) (lit w)) s"
    by (simp add: test_def chars_literal)
  also have "\<dots> \<longleftrightarrow> (\<exists>u x. s = u @ x \<and> startsWith x (lit w))"
    unfolding search_iff match_here_literal ..
  also have "\<dots> \<longleftrightarrow> (\<exists>u v. s = u @ lit w @ v)"
    unfolding startsWith_iff by blast
  finally show ?thesis .
qed

lemma match_here_append:
  "match_here p w \<noteq> None \<Longrightarrow> match_here p (w @ v) \<noteq> None"
proof (induction p w rule: match_here.induct)
  case (1 s)
  then show ?case by simp
next
  case (2 a r)
  then show ?case by simp
next
  case (3 a r c s)
  then show ?case by (auto split: if_splits)
next
  case (4 a r)
  then show ?case by simp
next
  case (5 a r c s)
  then show ?case by (auto split: if_splits)
next
  case (6 a r)
  then show ?case by (cases v) (auto split: option.splits)
next
  case (7 a r c s)
  then show ?case by (auto split: if_splits option.splits)
qed

lemma search_anywhere:
  assumes "search p s"
  shows "search p (u @ s @ v)"
proof -
  from assms obtain x w where s: "s = x @ w" and w: "match_here p w \<noteq> None"
    unfolding search_iff by blast
  from w have "match_here p (w @ v) \<noteq> None" by (rule match_here_append)
  moreover have "u @ s @ v = (u @ x) @ (w @ v)" by (simp add: s)
  ultimately show ?thesis unfolding search_iff by blast
qed

section \<open>Verification: command validation\<close>

lemma find_dangerous:
  assumes "p \<in> set dangerousPatterns" and "test p cmd"
  obtains q where "find (\<lambda>pattern. test pattern cmd) dangerousPatterns = Some q"
    and "q \<in> set dangerousPatterns" and "test q cmd"
proof -
  have "find (\<lambda>pattern. test pattern cmd) dangerousPatterns \<noteq> None"
    using assms by (auto simp: find_None_iff)
  then obtain q where q: "find (\<lambda>pattern. test pattern cmd) dangerousPatterns = Some q"
    by blast
  then have "q \<in> set dangerousPatterns \<and> test q cmd"
    by (auto simp: find_Some_iff in_set_conv_nth)
  with q that show thesis by blast
qed

lemma denied_when_dangerous:
  assumes "p \<in> set dangerousPatterns" and "test p cmd"
  shows "\<not> isValid (validateCommand cmd)"
proof -
  obtain q where "find (\<lambda>pattern. test pattern cmd) dangerousPatterns = Some q"
    using assms by (rule find_dangerous)
  then show ?thesis by (simp add: validateCommand_def)
qed

lemma dangerousPatterns_unanchored:
  "p \<in> set dangerousPatterns \<Longrightarrow> \<not> anchored p"
  by (auto simp: dangerousPatterns_def)

lemma dangerous_anywhere:
  assumes "p \<in> set dangerousPatterns" and "test p s"
  shows "test p (u @ s @ v)"
  using assms dangerousPatterns_unanchored [OF assms(1)]
  by (simp add: test_def search_anywhere)

text \<open>
  C1. A command that matches a deny pattern is rejected, whatever the allow list says of
  it: the loop over the dangerous patterns returns before the allow list is looked at,
  and the reason names a dangerous pattern that the command matches.
\<close>

theorem deny_match_is_rejected:
  assumes "p \<in> set dangerousPatterns" and "test p cmd"
  shows "\<not> isValid (validateCommand cmd) \<and>
         (\<exists>q \<in> set dangerousPatterns. test q cmd \<and>
            reason (validateCommand cmd) =
              Some (lit ''Command contains potentially dangerous pattern: '' @ toString q))"
proof -
  obtain q where q: "find (\<lambda>pattern. test pattern cmd) dangerousPatterns = Some q"
    and mem: "q \<in> set dangerousPatterns" and hit: "test q cmd"
    using assms by (rule find_dangerous)
  from q have "validateCommand cmd =
      \<lparr>isValid = False,
       reason = Some (lit ''Command contains potentially dangerous pattern: '' @ toString q)\<rparr>"
    by (simp add: validateCommand_def)
  with mem hit show ?thesis by auto
qed

theorem deny_match_is_rejected_witness:
  "Regex False (chars ''rm'' @ spaces1 @ chars ''-rf'') \<in> set dangerousPatterns \<and>
   test (Regex False (chars ''rm'' @ spaces1 @ chars ''-rf'')) (lit ''ls -la; rm -rf /'') \<and>
   test (Regex True (chars ''ls'' @ spaces1)) (lit ''ls -la; rm -rf /'') \<and>
   Regex True (chars ''ls'' @ spaces1) \<in> set safeCommands \<and>
   \<not> isValid (validateCommand (lit ''ls -la; rm -rf /''))"
proof -
  have a: "Regex False (chars ''rm'' @ spaces1 @ chars ''-rf'') \<in> set dangerousPatterns"
    by (simp add: dangerousPatterns_def)
  have b: "test (Regex False (chars ''rm'' @ spaces1 @ chars ''-rf'')) (lit ''ls -la; rm -rf /'')"
    by code_simp
  have c: "test (Regex True (chars ''ls'' @ spaces1)) (lit ''ls -la; rm -rf /'')"
    by code_simp
  have d: "Regex True (chars ''ls'' @ spaces1) \<in> set safeCommands"
    by (simp add: safeCommands_def)
  show ?thesis using a b c d deny_match_is_rejected [OF a b] by simp
qed

text \<open>
  C9. A command that matches no deny pattern and no allow pattern is rejected, and the
  reason is the text \<open>Command not in the list of allowed safe commands\<close>.
\<close>

theorem unlisted_command_is_rejected:
  assumes "\<forall>p \<in> set dangerousPatterns. \<not> test p cmd"
    and "\<forall>p \<in> set safeCommands. \<not> test p cmd"
  shows "validateCommand cmd =
           \<lparr>isValid = False,
            reason = Some (lit ''Command not in the list of allowed safe commands'')\<rparr>"
proof -
  have "find (\<lambda>pattern. test pattern cmd) dangerousPatterns = None"
    using assms(1) by (simp add: find_None_iff)
  moreover have "\<not> list_ex (\<lambda>pattern. test pattern cmd) safeCommands"
    using assms(2) by (simp add: list_ex_iff)
  ultimately show ?thesis by (simp add: validateCommand_def)
qed

theorem unlisted_command_is_rejected_witness:
  "\<not> list_ex (\<lambda>p. test p (lit ''make install'')) dangerousPatterns \<and>
   \<not> list_ex (\<lambda>p. test p (lit ''make install'')) safeCommands \<and>
   validateCommand (lit ''make install'') =
     \<lparr>isValid = False,
      reason = Some (lit ''Command not in the list of allowed safe commands'')\<rparr>"
proof -
  have a: "\<forall>p \<in> set dangerousPatterns. \<not> test p (lit ''make install'')"
    by code_simp
  have b: "\<forall>p \<in> set safeCommands. \<not> test p (lit ''make install'')"
    by code_simp
  have "validateCommand (lit ''make install'') =
     \<lparr>isValid = False,
      reason = Some (lit ''Command not in the list of allowed safe commands'')\<rparr>"
    using a b by (rule unlisted_command_is_rejected)
  with a b show ?thesis by (simp add: list_ex_iff)
qed

text \<open>
  C10. The deny patterns \<open>/passwd/\<close> and \<open>/mount/\<close> are not anchored: a command with
  \<open>passwd\<close> or \<open>mount\<close> anywhere in it is rejected. More generally a command is rejected
  as soon as some part of it matches a deny pattern, whatever stands before and after.
  So \<open>cat /etc/passwd\<close> is rejected, although it matches the allow pattern
  \<open>/^cat\s+/\<close>.
\<close>

theorem passwd_or_mount_anywhere_is_rejected:
  "(cmd = u @ lit ''passwd'' @ v \<or> cmd = u @ lit ''mount'' @ v
      \<longrightarrow> \<not> isValid (validateCommand cmd)) \<and>
   (p \<in> set dangerousPatterns \<and> test p s
      \<longrightarrow> \<not> isValid (validateCommand (u @ s @ v))) \<and>
   Regex True (chars ''cat'' @ spaces1) \<in> set safeCommands \<and>
   test (Regex True (chars ''cat'' @ spaces1)) (lit ''cat /etc/passwd'') \<and>
   \<not> isValid (validateCommand (lit ''cat /etc/passwd''))"
proof -
  have passwd: "\<not> isValid (validateCommand s)" if "s = x @ lit ''passwd'' @ y" for s x y
  proof -
    have "Regex False (chars ''passwd'') \<in> set dangerousPatterns"
      by (simp add: dangerousPatterns_def)
    moreover have "test (Regex False (chars ''passwd'')) s"
      using that unfolding test_unanchored_literal by blast
    ultimately show ?thesis by (rule denied_when_dangerous)
  qed
  have mount: "\<not> isValid (validateCommand s)" if "s = x @ lit ''mount'' @ y" for s x y
  proof -
    have "Regex False (chars ''mount'') \<in> set dangerousPatterns"
      by (simp add: dangerousPatterns_def)
    moreover have "test (Regex False (chars ''mount'')) s"
      using that unfolding test_unanchored_literal by blast
    ultimately show ?thesis by (rule denied_when_dangerous)
  qed
  have allow: "Regex True (chars ''cat'' @ spaces1) \<in> set safeCommands"
    by (simp add: safeCommands_def)
  have cat: "test (Regex True (chars ''cat'' @ spaces1)) (lit ''cat /etc/passwd'')"
    by code_simp
  have "lit ''cat /etc/passwd'' = lit ''cat /etc/'' @ lit ''passwd'' @ []"
    by (simp add: lit_def)
  then have "\<not> isValid (validateCommand (lit ''cat /etc/passwd''))"
    by (rule passwd)
  moreover have "\<not> isValid (validateCommand (u @ s @ v))"
    if "p \<in> set dangerousPatterns" and "test p s"
  proof -
    from that have "test p (u @ s @ v)" by (rule dangerous_anywhere)
    with that(1) show ?thesis by (rule denied_when_dangerous)
  qed
  ultimately show ?thesis using passwd mount allow cat by blast
qed

theorem passwd_or_mount_anywhere_is_rejected_witness:
  "(lit ''sudo umount /mnt'' = lit ''sudo u'' @ lit ''passwd'' @ lit '' /mnt'' \<or>
    lit ''sudo umount /mnt'' = lit ''sudo u'' @ lit ''mount'' @ lit '' /mnt'') \<and>
   \<not> isValid (validateCommand (lit ''sudo umount /mnt''))"
proof -
  have a: "lit ''sudo umount /mnt'' = lit ''sudo u'' @ lit ''mount'' @ lit '' /mnt''"
    by (simp add: lit_def)
  show ?thesis
    using a passwd_or_mount_anywhere_is_rejected
      [of "lit ''sudo umount /mnt''" "lit ''sudo u''" "lit '' /mnt''"]
    by blast
qed

section \<open>Verification: command ids\<close>

lemma digit_unat:
  assumes "k < 10"
  shows "unat (0x30 + of_nat k :: code_unit) = 48 + k"
proof -
  from assms have "k = 0 \<or> k = 1 \<or> k = 2 \<or> k = 3 \<or> k = 4 \<or> k = 5 \<or> k = 6 \<or> k = 7 \<or> k = 8 \<or> k = 9"
    by arith
  then show ?thesis by (elim disjE) simp_all
qed

lemma digit_inj:
  assumes "j < 10" and "k < 10" and "(0x30 + of_nat j :: code_unit) = 0x30 + of_nat k"
  shows "j = k"
proof -
  have "unat (0x30 + of_nat j :: code_unit) = unat (0x30 + of_nat k :: code_unit)"
    using assms(3) by simp
  then show ?thesis using assms(1,2) by (simp add: digit_unat)
qed

lemma digit_not_underscore:
  assumes "k < 10"
  shows "(0x30 + of_nat k :: code_unit) \<noteq> 0x5F"
proof
  assume "(0x30 + of_nat k :: code_unit) = 0x5F"
  then have "unat (0x30 + of_nat k :: code_unit) = unat (0x5F :: code_unit)" by simp
  then show False using assms by (simp add: digit_unat)
qed

lemma decimal_small: "n < 10 \<Longrightarrow> decimal n = [0x30 + of_nat n]"
  by (simp add: decimal.simps)

lemma decimal_large:
  "\<not> n < 10 \<Longrightarrow> decimal n = decimal (n div 10) @ [0x30 + of_nat (n mod 10)]"
  by (subst decimal.simps) simp

lemma decimal_nonempty: "decimal n \<noteq> []"
  by (cases "n < 10") (simp_all add: decimal_small decimal_large)

lemma decimal_no_underscore: "0x5F \<notin> set (decimal n)"
proof (induction n rule: decimal.induct)
  case (1 n)
  show ?case
  proof (cases "n < 10")
    case True
    then show ?thesis using digit_not_underscore [of n] by (auto simp: decimal_small)
  next
    case False
    have "n mod 10 < 10" by simp
    then have "(0x30 + of_nat (n mod 10) :: code_unit) \<noteq> 0x5F" by (rule digit_not_underscore)
    with False "1.IH" show ?thesis by (auto simp: decimal_large)
  qed
qed

lemma decimal_inj: "decimal n = decimal m \<Longrightarrow> n = m"
proof (induction n arbitrary: m rule: decimal.induct)
  case (1 n)
  show ?case
  proof (cases "n < 10")
    case small_n: True
    show ?thesis
    proof (cases "m < 10")
      case True
      with small_n "1.prems" show ?thesis by (auto simp: decimal_small dest: digit_inj)
    next
      case False
      with small_n "1.prems" show ?thesis
        using decimal_nonempty [of "m div 10"] by (simp add: decimal_small decimal_large)
    qed
  next
    case large_n: False
    show ?thesis
    proof (cases "m < 10")
      case True
      with large_n "1.prems" show ?thesis
        using decimal_nonempty [of "n div 10"] by (simp add: decimal_small decimal_large)
    next
      case False
      with large_n "1.prems" have eq: "decimal (n div 10) = decimal (m div 10)"
        and last: "(0x30 + of_nat (n mod 10) :: code_unit) = 0x30 + of_nat (m mod 10)"
        by (simp_all add: decimal_large)
      from eq large_n have "n div 10 = m div 10" by (rule "1.IH" [rotated])
      moreover have "n mod 10 = m mod 10"
        using last by (intro digit_inj) simp_all
      ultimately show ?thesis by (metis div_mult_mod_eq)
    qed
  qed
qed

lemma split_at_first:
  assumes "u \<notin> set xs" and "u \<notin> set ys" and "xs @ u # s = ys @ u # t"
  shows "xs = ys \<and> s = t"
  using assms
proof (induction xs arbitrary: ys)
  case Nil
  then show ?case by (cases ys) auto
next
  case (Cons x xs)
  then show ?case by (cases ys) auto
qed

lemma generateCommandId_eq_iff:
  "generateCommandId env1 = generateCommandId env2 \<longleftrightarrow>
     date_now env1 = date_now env2 \<and>
     substr (random_text env1) 2 9 = substr (random_text env2) 2 9"
proof
  assume "generateCommandId env1 = generateCommandId env2"
  then have "decimal (date_now env1) @ 0x5F # substr (random_text env1) 2 9 =
             decimal (date_now env2) @ 0x5F # substr (random_text env2) 2 9"
    by (simp add: generateCommandId_def lit_def)
  then have "decimal (date_now env1) = decimal (date_now env2) \<and>
             substr (random_text env1) 2 9 = substr (random_text env2) 2 9"
    by (rule split_at_first [OF decimal_no_underscore decimal_no_underscore])
  then show "date_now env1 = date_now env2 \<and>
     substr (random_text env1) 2 9 = substr (random_text env2) 2 9"
    by (auto dest: decimal_inj)
next
  assume "date_now env1 = date_now env2 \<and>
     substr (random_text env1) 2 9 = substr (random_text env2) 2 9"
  then show "generateCommandId env1 = generateCommandId env2"
    by (simp add: generateCommandId_def)
qed

section \<open>Verification: the pending map\<close>

lemma bash_call_accepted:
  assumes "isValid (validateCommand cmd)"
  shows "bash_call m env (Object cmd descr) =
           (Inr (ApprovalRequest (generateCommandId env) cmd descr),
            AList.update (generateCommandId env)
              \<lparr>command = cmd, description = descr, timestamp = new_date env\<rparr> m)"
  using assms by (simp add: bash_call_def formatApprovalRequest_def Let_def)

lemma bash_call_refused:
  assumes "\<not> isValid (validateCommand cmd)"
  shows "snd (bash_call m env (Object cmd descr)) = m"
  using assms by (simp add: bash_call_def Let_def)

lemma bash_call_keys:
  "snd (bash_call m env input) = m \<or>
   (\<exists>data. snd (bash_call m env input) = AList.update (generateCommandId env) data m)"
proof (cases input)
  case SyntaxError
  then show ?thesis by (simp add: bash_call_def)
next
  case (Object cmd descr)
  then show ?thesis
    by (cases "isValid (validateCommand cmd)") (auto simp: bash_call_accepted bash_call_refused)
qed

lemma bash_call_distinct:
  assumes "distinct (map fst m)"
  shows "distinct (map fst (snd (bash_call m env input)))"
  using bash_call_keys [of m env input] assms by (auto simp: distinct_update)

lemma finishExecution_map:
  "snd (finishExecution m commandId commandData outcome) = AList.delete commandId m"
  by (cases outcome) (auto simp: finishExecution_def)

lemma executeApprovedCommand_map:
  "snd (executeApprovedCommand m commandId outcome) = AList.delete commandId m"
proof (cases "map_of m commandId")
  case None
  then have "commandId \<notin> fst ` set m" by (simp add: map_of_eq_None_iff)
  with None show ?thesis by (simp add: executeApprovedCommand_def)
next
  case (Some commandData)
  then show ?thesis by (simp add: executeApprovedCommand_def finishExecution_map)
qed

lemma rejectCommand_map:
  "snd (rejectCommand m commandId) = AList.delete commandId m"
proof (cases "map_of m commandId")
  case None
  then have "commandId \<notin> fst ` set m" by (simp add: map_of_eq_None_iff)
  with None show ?thesis by (simp add: rejectCommand_def)
next
  case (Some commandData)
  then show ?thesis by (simp add: rejectCommand_def)
qed

lemma map_of_delete_same: "map_of (AList.delete k m) k = None"
  by (simp add: delete_conv')

lemma length_delete_distinct:
  assumes "distinct (map fst m)" and "map_of m k = Some v"
  shows "Suc (length (AList.delete k m)) = length m"
  using assms
proof (induction m)
  case Nil
  then show ?case by simp
next
  case (Cons e m)
  show ?case
  proof (cases "fst e = k")
    case True
    with Cons.prems(1) have "k \<notin> fst ` set m" by auto
    with True show ?thesis by (cases e) simp
  next
    case False
    with Cons show ?thesis by (cases e) auto
  qed
qed

lemma approve_not_found:
  assumes "map_of m commandId = None"
  shows "executeApprovedCommand m commandId outcome =
           (Inl (Error (lit ''Command '' @ commandId @ lit '' not found or already executed'')), m)"
  using assms by (simp add: executeApprovedCommand_def)

lemma reject_not_found:
  assumes "map_of m commandId = None"
  shows "rejectCommand m commandId =
           (Inl (Error (lit ''Command '' @ commandId @ lit '' not found'')), m)"
  using assms by (simp add: rejectCommand_def)

lemma apply_operation_absent:
  assumes "map_of m commandId = None" and "\<not> generates commandId op"
  shows "map_of (apply_operation m op) commandId = None"
proof (cases op)
  case (Call env input)
  with assms(2) have ne: "generateCommandId env \<noteq> commandId" by simp
  from bash_call_keys [of m env input] show ?thesis
  proof
    assume "snd (bash_call m env input) = m"
    with Call assms(1) show ?thesis by simp
  next
    assume "\<exists>data. snd (bash_call m env input) = AList.update (generateCommandId env) data m"
    then obtain data where "snd (bash_call m env input) = AList.update (generateCommandId env) data m"
      by blast
    with Call assms(1) ne show ?thesis by (simp add: update_conv')
  qed
next
  case (Approve k outcome)
  with assms(1) show ?thesis by (simp add: executeApprovedCommand_map delete_conv')
next
  case (Resume k data outcome)
  with assms(1) show ?thesis by (simp add: finishExecution_map delete_conv')
next
  case (Reject k)
  with assms(1) show ?thesis by (simp add: rejectCommand_map delete_conv')
qed

lemma run_absent:
  assumes "map_of m commandId = None" and "\<forall>op \<in> set ops. \<not> generates commandId op"
  shows "map_of (run m ops) commandId = None"
  using assms unfolding run_def
proof (induction ops arbitrary: m)
  case Nil
  then show ?case by simp
next
  case (Cons op ops)
  from Cons.prems have "map_of (apply_operation m op) commandId = None"
    by (intro apply_operation_absent) simp_all
  with Cons show ?case by simp
qed

section \<open>Verification: submission and approval\<close>

lemma sample_id_generated: "generateCommandId sample_env = sample_id"
  by (simp add: generateCommandId_def decimal.simps substr_def lit_def)

lemma date_is_valid: "isValid (validateCommand (lit ''date''))"
  by code_simp

lemma uptime_is_valid: "isValid (validateCommand (lit ''uptime''))"
  by code_simp

lemma sample_call:
  "bash_call [] sample_env (Object (lit ''date'') (lit ''Get current date and time'')) =
     (Inr (ApprovalRequest sample_id (lit ''date'') (lit ''Get current date and time'')),
      [(sample_id, sample_entry)])"
  by (simp add: bash_call_accepted [OF date_is_valid] sample_id_generated)

text \<open>
  C2 (as stated). The id is not drawn from a counter: it is made of the clock reading and
  of the random text. Two calls that read the same millisecond and the same random text
  get the same id, and the second entry replaces the first in the map.
\<close>

theorem id_reused_counterexample:
  "fst (bash_call [] sample_env (Object (lit ''date'') (lit ''Get current date and time''))) =
     Inr (ApprovalRequest sample_id (lit ''date'') (lit ''Get current date and time'')) \<and>
   bash_call [(sample_id, sample_entry)] sample_env (Object (lit ''uptime'') (lit ''Load'')) =
     (Inr (ApprovalRequest sample_id (lit ''uptime'') (lit ''Load'')),
      [(sample_id,
        \<lparr>command = lit ''uptime'', description = lit ''Load'', timestamp = 1730000000001\<rparr>)])"
  by (simp add: sample_call bash_call_accepted [OF uptime_is_valid] sample_id_generated)

text \<open>
  C2 (amended). The id of a submission is \<open>cmd_\<close>, the clock reading in decimal, an
  underscore and up to nine characters of the random text. Two submissions get the same
  id exactly when their clock readings and these characters agree. An accepted command is
  stored under its id, and the map never holds two entries for one id.
\<close>

theorem command_ids_differ_with_their_sources:
  "(generateCommandId env1 = generateCommandId env2 \<longleftrightarrow>
      date_now env1 = date_now env2 \<and>
      substr (random_text env1) 2 9 = substr (random_text env2) 2 9) \<and>
   (isValid (validateCommand cmd) \<longrightarrow>
      fst (bash_call m env (Object cmd descr)) =
        Inr (ApprovalRequest (generateCommandId env) cmd descr) \<and>
      map_of (snd (bash_call m env (Object cmd descr))) (generateCommandId env) =
        Some \<lparr>command = cmd, description = descr, timestamp = new_date env\<rparr>) \<and>
   (distinct (map fst m) \<longrightarrow> distinct (map fst (snd (bash_call m env input))))"
proof (intro conjI impI)
  show "generateCommandId env1 = generateCommandId env2 \<longleftrightarrow>
      date_now env1 = date_now env2 \<and>
      substr (random_text env1) 2 9 = substr (random_text env2) 2 9"
    by (rule generateCommandId_eq_iff)
next
  assume "isValid (validateCommand cmd)"
  then show "fst (bash_call m env (Object cmd descr)) =
        Inr (ApprovalRequest (generateCommandId env) cmd descr)"
    by (simp add: bash_call_accepted)
next
  assume "isValid (validateCommand cmd)"
  then show "map_of (snd (bash_call m env (Object cmd descr))) (generateCommandId env) =
        Some \<lparr>command = cmd, description = descr, timestamp = new_date env\<rparr>"
    by (simp add: bash_call_accepted update_conv')
next
  assume "distinct (map fst m)"
  then show "distinct (map fst (snd (bash_call m env input)))"
    by (rule bash_call_distinct)
qed

theorem command_ids_differ_with_their_sources_witness:
  "generateCommandId sample_env \<noteq>
     generateCommandId
       \<lparr>date_now = 1730000000000, random_text = lit ''0.9k3x'', new_date = 1730000000001\<rparr> \<and>
   isValid (validateCommand (lit ''uptime'')) \<and>
   distinct (map fst [(sample_id, sample_entry)]) \<and>
   map_of (snd (bash_call [(sample_id, sample_entry)]
                  \<lparr>date_now = 1730000000000, random_text = lit ''0.9k3x'',
                   new_date = 1730000000001\<rparr>
                  (Object (lit ''uptime'') (lit ''Load''))))
     (generateCommandId
        \<lparr>date_now = 1730000000000, random_text = lit ''0.9k3x'', new_date = 1730000000001\<rparr>) =
     Some \<lparr>command = lit ''uptime'', description = lit ''Load'', timestamp = 1730000000001\<rparr> \<and>
   distinct (map fst (snd (bash_call [(sample_id, sample_entry)]
                  \<lparr>date_now = 1730000000000, random_text = lit ''0.9k3x'',
                   new_date = 1730000000001\<rparr>
                  (Object (lit ''uptime'') (lit ''Load'')))))"
proof -
  have ne: "substr (random_text sample_env) 2 9 \<noteq> substr (lit ''0.9k3x'') 2 9"
    by (simp add: substr_def lit_def)
  have d: "distinct (map fst [(sample_id, sample_entry)])" by simp
  show ?thesis
    using ne d uptime_is_valid
      command_ids_differ_with_their_sources
        [of sample_env
            "\<lparr>date_now = 1730000000000, random_text = lit ''0.9k3x'', new_date = 1730000000001\<rparr>"
            "lit ''uptime''" "[(sample_id, sample_entry)]"
            "\<lparr>date_now = 1730000000000, random_text = lit ''0.9k3x'', new_date = 1730000000001\<rparr>"
            "lit ''Load''" "Object (lit ''uptime'') (lit ''Load'')"]
    by simp
qed

text \<open>
  C3. An approval of a pending id removes its entry, whether the subprocess succeeds or
  fails: after the call the id is not in the map, the other entries are untouched, and
  exactly one entry is gone. The second segment of the call removes the id from whatever
  the map is when the subprocess settles.
\<close>

theorem approval_removes_the_entry:
  assumes "map_of m commandId = Some commandData"
  shows "map_of (snd (executeApprovedCommand m commandId outcome)) commandId = None \<and>
         (\<forall>k. k \<noteq> commandId \<longrightarrow>
            map_of (snd (executeApprovedCommand m commandId outcome)) k = map_of m k) \<and>
         (distinct (map fst m) \<longrightarrow>
            Suc (length (snd (executeApprovedCommand m commandId outcome))) = length m) \<and>
         fst (executeApprovedCommand m commandId outcome) =
           (case outcome of
              Returned (stdout, stderr) \<Rightarrow> Inr (CommandResult (command commandData) stdout stderr)
            | Threw message \<Rightarrow> Inl (Error (lit ''Command execution failed: '' @ message))) \<and>
         map_of (snd (finishExecution m' commandId commandData outcome)) commandId = None"
proof (intro conjI allI impI)
  show "map_of (snd (executeApprovedCommand m commandId outcome)) commandId = None"
    by (simp add: executeApprovedCommand_map map_of_delete_same)
next
  fix k assume "k \<noteq> commandId"
  then show "map_of (snd (executeApprovedCommand m commandId outcome)) k = map_of m k"
    by (simp add: executeApprovedCommand_map)
next
  assume "distinct (map fst m)"
  then show "Suc (length (snd (executeApprovedCommand m commandId outcome))) = length m"
    using assms by (simp add: executeApprovedCommand_map length_delete_distinct)
next
  show "fst (executeApprovedCommand m commandId outcome) =
           (case outcome of
              Returned (stdout, stderr) \<Rightarrow> Inr (CommandResult (command commandData) stdout stderr)
            | Threw message \<Rightarrow> Inl (Error (lit ''Command execution failed: '' @ message)))"
    using assms
    by (cases outcome) (auto simp: executeApprovedCommand_def finishExecution_def)
next
  show "map_of (snd (finishExecution m' commandId commandData outcome)) commandId = None"
    by (simp add: finishExecution_map map_of_delete_same)
qed

theorem approval_removes_the_entry_witness:
  "map_of [(sample_id, sample_entry)] sample_id = Some sample_entry \<and>
   executeApprovedCommand [(sample_id, sample_entry)] sample_id (Threw (lit ''Command failed: date'')) =
     (Inl (Error (lit ''Command execution failed: Command failed: date'')), []) \<and>
   map_of (snd (executeApprovedCommand [(sample_id, sample_entry)] sample_id
                  (Threw (lit ''Command failed: date'')))) sample_id = None"
proof -
  have a: "map_of [(sample_id, sample_entry)] sample_id = Some sample_entry" by simp
  have b: "executeApprovedCommand [(sample_id, sample_entry)] sample_id (Threw (lit ''Command failed: date'')) =
     (Inl (Error (lit ''Command execution failed: Command failed: date'')), [])"
    by (simp add: executeApprovedCommand_def finishExecution_def lit_def)
  show ?thesis
    using a b approval_removes_the_entry [OF a, of "Threw (lit ''Command failed: date'')"]
    by blast
qed

section \<open>Verification: the life of an entry\<close>

text \<open>
  C4 (as stated). An id can come back: ids are made of the clock reading and the random
  text, and a submission that reads the same two again stores a new entry under an id
  that was resolved before. Here the id is rejected, the same id is generated again by a
  new submission, and the approval of the id then runs the command instead of failing.
\<close>

theorem resolved_id_found_again_counterexample:
  "rejectCommand [(sample_id, sample_entry)] sample_id =
     (Inr (CommandRejected sample_id (lit ''date'')), []) \<and>
   executeApprovedCommand
     (run (snd (rejectCommand [(sample_id, sample_entry)] sample_id))
        [Call sample_env (Object (lit ''date'') (lit ''Get current date and time''))])
     sample_id (Returned (lit ''Tue Nov  3'', [])) =
     (Inr (CommandResult (lit ''date'') (lit ''Tue Nov  3'') []), [])"
proof -
  have rejected: "rejectCommand [(sample_id, sample_entry)] sample_id =
     (Inr (CommandRejected sample_id (lit ''date'')), [])"
    by (simp add: rejectCommand_def)
  have "run [] [Call sample_env (Object (lit ''date'') (lit ''Get current date and time''))] =
          [(sample_id, sample_entry)]"
    by (simp add: run_def sample_call)
  moreover have "executeApprovedCommand [(sample_id, sample_entry)] sample_id
                   (Returned (lit ''Tue Nov  3'', [])) =
     (Inr (CommandResult (lit ''date'') (lit ''Tue Nov  3'') []), [])"
    by (simp add: executeApprovedCommand_def finishExecution_def)
  ultimately show ?thesis by (simp add: rejected)
qed

text \<open>
  C4 (amended). Once an approval (whole, or resumed after its \<open>await\<close>) or a rejection
  of an id has returned, and also when the id was never in the map, every later approval
  of that id fails with \<open>Command ... not found or already executed\<close> and every later
  rejection with \<open>Command ... not found\<close>, and the map is left as it is. This holds
  after any operations in between, as long as none of them is a submission that generates
  the very same id again.
\<close>

theorem resolved_id_is_not_found:
  assumes "m1 = snd (executeApprovedCommand m commandId outcome) \<or>
           m1 = snd (finishExecution m commandId commandData outcome) \<or>
           m1 = snd (rejectCommand m commandId) \<or>
           (m1 = m \<and> map_of m commandId = None)"
    and "\<forall>op \<in> set ops. \<not> generates commandId op"
  shows "executeApprovedCommand (run m1 ops) commandId outcome' =
           (Inl (Error (lit ''Command '' @ commandId @ lit '' not found or already executed'')),
            run m1 ops) \<and>
         rejectCommand (run m1 ops) commandId =
           (Inl (Error (lit ''Command '' @ commandId @ lit '' not found'')), run m1 ops)"
proof -
  from assms(1) have "map_of m1 commandId = None"
    by (auto simp: executeApprovedCommand_map finishExecution_map rejectCommand_map
        map_of_delete_same)
  then have "map_of (run m1 ops) commandId = None"
    using assms(2) by (rule run_absent)
  then show ?thesis
    by (simp add: approve_not_found reject_not_found)
qed

theorem resolved_id_is_not_found_witness:
  "\<not> list_ex (generates sample_id)
       [Call \<lparr>date_now = 1730000000002, random_text = lit ''0.9k3x'', new_date = 1730000000002\<rparr>
          (Object (lit ''uptime'') (lit ''Load'')),
        Reject (lit ''cmd_0_'')] \<and>
   rejectCommand [(sample_id, sample_entry)] sample_id =
     (Inr (CommandRejected sample_id (lit ''date'')), []) \<and>
   executeApprovedCommand
     (run (snd (rejectCommand [(sample_id, sample_entry)] sample_id))
        [Call \<lparr>date_now = 1730000000002, random_text = lit ''0.9k3x'', new_date = 1730000000002\<rparr>
           (Object (lit ''uptime'') (lit ''Load'')),
         Reject (lit ''cmd_0_'')])
     sample_id (Returned (lit ''Tue Nov  3'', [])) =
     (Inl (Error (lit ''Command '' @ sample_id @ lit '' not found or already executed'')),
      run (snd (rejectCommand [(sample_id, sample_entry)] sample_id))
        [Call \<lparr>date_now = 1730000000002, random_text = lit ''0.9k3x'', new_date = 1730000000002\<rparr>
           (Object (lit ''uptime'') (lit ''Load'')),
         Reject (lit ''cmd_0_'')])"
proof -
  have g: "\<forall>op \<in> set
       [Call \<lparr>date_now = 1730000000002, random_text = lit ''0.9k3x'', new_date = 1730000000002\<rparr>
          (Object (lit ''uptime'') (lit ''Load'')),
        Reject (lit ''cmd_0_'')]. \<not> generates sample_id op"
    by (simp add: generateCommandId_def decimal.simps substr_def lit_def)
  have r: "rejectCommand [(sample_id, sample_entry)] sample_id =
     (Inr (CommandRejected sample_id (lit ''date'')), [])"
    by (simp add: rejectCommand_def)
  have "snd (rejectCommand [(sample_id, sample_entry)] sample_id) =
          snd (executeApprovedCommand [(sample_id, sample_entry)] sample_id (Threw [])) \<or>
        snd (rejectCommand [(sample_id, sample_entry)] sample_id) =
          snd (finishExecution [(sample_id, sample_entry)] sample_id sample_entry (Threw [])) \<or>
        snd (rejectCommand [(sample_id, sample_entry)] sample_id) =
          snd (rejectCommand [(sample_id, sample_entry)] sample_id) \<or>
        (snd (rejectCommand [(sample_id, sample_entry)] sample_id) = [(sample_id, sample_entry)] \<and>
         map_of [(sample_id, sample_entry)] sample_id = None)"
    by simp
  from resolved_id_is_not_found [OF this g, of "Returned (lit ''Tue Nov  3'', [])"] g r
  show ?thesis by (simp add: list_ex_iff)
qed

text \<open>
  C5 (as stated). The lookup and the removal of \<open>executeApprovedCommand\<close> are separated
  by the \<open>await\<close> of the subprocess. A rejection of the same id that is handled while
  the command runs finds the entry too: the command is reported rejected and its result
  is returned all the same, and neither call sees the not-found error.
\<close>

theorem approve_and_reject_both_win_counterexample:
  "reject_during_approval [(sample_id, sample_entry)] sample_id (Returned (lit ''Tue Nov  3'', [])) =
     (Inr (CommandResult (lit ''date'') (lit ''Tue Nov  3'') []),
      Inr (CommandRejected sample_id (lit ''date'')),
      [])"
  by (simp add: reject_during_approval_def rejectCommand_def finishExecution_def)

text \<open>
  C5 (amended). For a pending id, when the approval and the rejection do not overlap,
  the first of them finds the entry and the second fails with the not-found error:
  \<open>rejectCommand\<close> looks up and removes in one synchronous segment, and an approval that
  has returned has removed the entry. When the rejection is handled while the approved
  command is still running, both find the entry.
\<close>

theorem approve_reject_race:
  assumes "map_of m commandId = Some commandData"
  shows "approve_then_reject m commandId outcome =
           (case outcome of
              Returned (stdout, stderr) \<Rightarrow> Inr (CommandResult (command commandData) stdout stderr)
            | Threw message \<Rightarrow> Inl (Error (lit ''Command execution failed: '' @ message)),
            Inl (Error (lit ''Command '' @ commandId @ lit '' not found'')),
            AList.delete commandId m) \<and>
         reject_then_approve m commandId outcome =
           (Inl (Error (lit ''Command '' @ commandId @ lit '' not found or already executed'')),
            Inr (CommandRejected commandId (command commandData)),
            AList.delete commandId m) \<and>
         reject_during_approval m commandId outcome =
           (case outcome of
              Returned (stdout, stderr) \<Rightarrow> Inr (CommandResult (command commandData) stdout stderr)
            | Threw message \<Rightarrow> Inl (Error (lit ''Command execution failed: '' @ message)),
            Inr (CommandRejected commandId (command commandData)),
            AList.delete commandId m)"
proof (intro conjI)
  have gone: "map_of (AList.delete commandId m) commandId = None"
    by (rule map_of_delete_same)
  have approve: "executeApprovedCommand m commandId outcome =
      (case outcome of
         Returned (stdout, stderr) \<Rightarrow> Inr (CommandResult (command commandData) stdout stderr)
       | Threw message \<Rightarrow> Inl (Error (lit ''Command execution failed: '' @ message)),
       AList.delete commandId m)"
    using assms by (cases outcome) (auto simp: executeApprovedCommand_def finishExecution_def)
  have reject: "rejectCommand m commandId =
      (Inr (CommandRejected commandId (command commandData)), AList.delete commandId m)"
    using assms by (simp add: rejectCommand_def)
  show "approve_then_reject m commandId outcome =
           (case outcome of
              Returned (stdout, stderr) \<Rightarrow> Inr (CommandResult (command commandData) stdout stderr)
            | Threw message \<Rightarrow> Inl (Error (lit ''Command execution failed: '' @ message)),
            Inl (Error (lit ''Command '' @ commandId @ lit '' not found'')),
            AList.delete commandId m)"
    by (simp add: approve_then_reject_def approve reject_not_found [OF gone])
  show "reject_then_approve m commandId outcome =
           (Inl (Error (lit ''Command '' @ commandId @ lit '' not found or already executed'')),
            Inr (CommandRejected commandId (command commandData)),
            AList.delete commandId m)"
    by (simp add: reject_then_approve_def reject approve_not_found [OF gone])
  have "finishExecution (AList.delete commandId m) commandId commandData outcome =
      (case outcome of
         Returned (stdout, stderr) \<Rightarrow> Inr (CommandResult (command commandData) stdout stderr)
       | Threw message \<Rightarrow> Inl (Error (lit ''Command execution failed: '' @ message)),
       AList.delete commandId m)"
    by (cases outcome) (auto simp: finishExecution_def delete_idem)
  then show "reject_during_approval m commandId outcome =
           (case outcome of
              Returned (stdout, stderr) \<Rightarrow> Inr (CommandResult (command commandData) stdout stderr)
            | Threw message \<Rightarrow> Inl (Error (lit ''Command execution failed: '' @ message)),
            Inr (CommandRejected commandId (command commandData)),
            AList.delete commandId m)"
    using assms by (simp add: reject_during_approval_def reject)
qed

theorem approve_reject_race_witness:
  "map_of [(sample_id, sample_entry)] sample_id = Some sample_entry \<and>
   approve_then_reject [(sample_id, sample_entry)] sample_id (Returned (lit ''Tue Nov  3'', [])) =
     (Inr (CommandResult (lit ''date'') (lit ''Tue Nov  3'') []),
      Inl (Error (lit ''Command '' @ sample_id @ lit '' not found'')),
      []) \<and>
   reject_then_approve [(sample_id, sample_entry)] sample_id (Returned (lit ''Tue Nov  3'', [])) =
     (Inl (Error (lit ''Command '' @ sample_id @ lit '' not found or already executed'')),
      Inr (CommandRejected sample_id (lit ''date'')),
      [])"
proof -
  have a: "map_of [(sample_id, sample_entry)] sample_id = Some sample_entry" by simp
  from approve_reject_race [OF a, of "Returned (lit ''Tue Nov  3'', [])"] a
  show ?thesis by simp
qed

section \<open>Verification: fallback routing\<close>

lemma time_vocabulary_selects_bash:
  assumes "includes_str (toLowerCase query) (lit ''hora'') \<or>
           includes_str (toLowerCase query) (lit ''time'') \<or>
           includes_str (toLowerCase query) (lit ''data'') \<or>
           includes_str (toLowerCase query) (lit ''date'')"
  shows "processWithFallback query =
           (bash_command, lit ''Query about time/date - using bash command'',
            Json (lit ''date'') (lit ''Get current date and time''))"
  using assms by (auto simp: processWithFallback_def selectTool_def generateInput_def)

lemma documents_are_the_default:
  assumes "selectTool (toLowerCase query) \<noteq>
             (bash_command, lit ''Query about time/date - using bash command'')"
    and "selectTool (toLowerCase query) \<noteq>
             (sqlite_database, lit ''Query about music data - using SQLite database'')"
  shows "fst (processWithFallback query) = document_search \<and>
         snd (snd (processWithFallback query)) = Terms query"
  using assms
  by (auto simp: processWithFallback_def selectTool_def generateInput_def split: if_splits)

lemma routes_what_time_is_it:
  "processWithFallback (lit ''what time is it'') =
     (bash_command, lit ''Query about time/date - using bash command'',
      Json (lit ''date'') (lit ''Get current date and time''))"
  by code_simp

lemma routes_what_is_capitalism:
  "processWithFallback (lit ''what is capitalism'') =
     (document_search, lit ''Defaulting to document search'', Terms (lit ''what is capitalism''))"
  by code_simp

lemma routes_quantos_artistas:
  "processWithFallback (lit ''Quantos artistas existem no banco de dados?'') =
     (sqlite_database, lit ''Query about music data - using SQLite database'',
      Sql (lit ''SELECT COUNT(*) as count FROM Artist''))"
  by code_simp

text \<open>
  C6. The chain is ordered and the first group that matches wins, but the music group
  tests \<open>artista\<close> and not \<open>artist\<close>: the query \<open>how many artists\<close> matches no group and
  goes to the document search with the query as its input. Had it reached the database
  branch, the input would have been the count statement, since that branch does test
  \<open>artist\<close> and \<open>how many\<close>.
\<close>

theorem how_many_artists_goes_to_documents:
  "processWithFallback (lit ''how many artists'') =
     (document_search, lit ''Defaulting to document search'', Terms (lit ''how many artists'')) \<and>
   generateInput sqlite_database (lit ''how many artists'') (toLowerCase (lit ''how many artists'')) =
     Sql (lit ''SELECT COUNT(*) as count FROM Artist'')"
  by code_simp

section \<open>Verification: document ranking\<close>

lemma insert_sorted_insort_key:
  "insert_sorted (\<lambda>a b. int (relevance b) - int (relevance a)) x ys =
   insort_key (\<lambda>r. - int (relevance r)) x ys"
  by (induction ys) auto

lemma array_sort_sort_key:
  "array_sort (\<lambda>a b. int (relevance b) - int (relevance a)) xs =
   sort_key (\<lambda>r. - int (relevance r)) xs"
proof -
  have "insert_sorted (\<lambda>a b. int (relevance b) - int (relevance a)) =
        insort_key (\<lambda>r. - int (relevance r))"
    by (intro ext) (rule insert_sorted_insort_key)
  then show ?thesis unfolding array_sort_def sort_key_def by (rule arg_cong)
qed

lemma scoreFile_Some:
  assumes "scoreFile terms file = Some r"
  shows "source r = fst file \<and> 0 < relevance r"
  using assms by (auto simp: scoreFile_def Let_def split: attempt.splits if_splits)

lemma collect_positive: "r \<in> set (collect terms files) \<Longrightarrow> 0 < relevance r"
proof (induction files)
  case Nil
  then show ?case by simp
next
  case (Cons f fs)
  show ?case
  proof (cases "scoreFile terms f")
    case None
    with Cons show ?thesis by simp
  next
    case (Some result)
    then have "0 < relevance result" by (simp add: scoreFile_Some)
    with Some Cons show ?thesis by auto
  qed
qed

lemma collect_sources: "subseq (map source (collect terms files)) (map fst files)"
proof (induction files)
  case Nil
  then show ?case by simp
next
  case (Cons f fs)
  show ?case
  proof (cases "scoreFile terms f")
    case None
    with Cons show ?thesis by auto
  next
    case (Some result)
    then have "source result = fst f" by (simp add: scoreFile_Some)
    with Some Cons show ?thesis by auto
  qed
qed

lemma source_excerpt: "source (excerpt r) = source r"
  by (simp add: excerpt_def)

lemma relevance_excerpt: "relevance (excerpt r) = relevance r"
  by (simp add: excerpt_def)

lemma matches_listing:
  "matches (document_call query (Returned files)) =
     map excerpt (take 3 (sort_key (\<lambda>r. - int (relevance r))
       (collect (split [(Space, Plus)] (toLowerCase query))
          (filter (\<lambda>file. endsWith (fst file) (lit ''.txt'')) files))))"
  by (simp add: document_call_def Let_def array_sort_sort_key)

lemma matches_no_listing: "matches (document_call query (Threw message)) = []"
  by (simp add: document_call_def)

lemma ranked_at_most_three: "length (matches (document_call query readdir)) \<le> 3"
  by (cases readdir) (simp_all add: matches_listing matches_no_listing)

lemma ranked_positive:
  assumes "m \<in> set (matches (document_call query readdir))"
  shows "0 < relevance m"
proof (cases readdir)
  case (Threw message)
  with assms show ?thesis by (simp add: matches_no_listing)
next
  case (Returned files)
  define cands where "cands = collect (split [(Space, Plus)] (toLowerCase query))
          (filter (\<lambda>file. endsWith (fst file) (lit ''.txt'')) files)"
  have listing: "matches (document_call query (Returned files)) =
      map excerpt (take 3 (sort_key (\<lambda>r. - int (relevance r)) cands))"
    unfolding cands_def by (rule matches_listing)
  from assms have "m \<in> excerpt ` set (take 3 (sort_key (\<lambda>r. - int (relevance r)) cands))"
    unfolding Returned listing by simp
  then obtain r where r: "r \<in> set (take 3 (sort_key (\<lambda>r. - int (relevance r)) cands))"
    and m: "m = excerpt r"
    by blast
  from r have "r \<in> set (sort_key (\<lambda>r. - int (relevance r)) cands)"
    by (rule in_set_takeD)
  then have "r \<in> set cands" by simp
  then have "0 < relevance r" unfolding cands_def by (rule collect_positive)
  with m show ?thesis by (simp add: relevance_excerpt)
qed

lemma ranked_descending:
  "sorted_wrt (\<lambda>a b. relevance b \<le> relevance a) (matches (document_call query readdir))"
proof (cases readdir)
  case (Threw message)
  then show ?thesis by (simp add: matches_no_listing)
next
  case (Returned files)
  define cands where "cands = collect (split [(Space, Plus)] (toLowerCase query))
          (filter (\<lambda>file. endsWith (fst file) (lit ''.txt'')) files)"
  have listing: "matches (document_call query (Returned files)) =
      map excerpt (take 3 (sort_key (\<lambda>r. - int (relevance r)) cands))"
    unfolding cands_def by (rule matches_listing)
  have "sorted (map (\<lambda>r. - int (relevance r)) (sort_key (\<lambda>r. - int (relevance r)) cands))"
    by (rule sorted_sort_key)
  then have "sorted_wrt (\<lambda>a b. relevance b \<le> relevance a)
               (sort_key (\<lambda>r. - int (relevance r)) cands)"
    by (simp add: sorted_wrt_map)
  then have "sorted_wrt (\<lambda>a b. relevance b \<le> relevance a)
               (take 3 (sort_key (\<lambda>r. - int (relevance r)) cands))"
    by (rule sorted_wrt_take)
  then have "sorted_wrt (\<lambda>a b. relevance b \<le> relevance a)
               (map excerpt (take 3 (sort_key (\<lambda>r. - int (relevance r)) cands)))"
    by (simp add: sorted_wrt_map relevance_excerpt)
  then show ?thesis unfolding Returned listing .
qed

lemma ranked_ties_in_corpus_order:
  "subseq (map source (filter (\<lambda>m. relevance m = k) (matches (document_call query (Returned files)))))
          (map fst files)"
proof -
  define texts where "texts = filter (\<lambda>file. endsWith (fst file) (lit ''.txt'')) files"
  define cands where "cands = collect (split [(Space, Plus)] (toLowerCase query)) texts"
  define ranked where "ranked = sort_key (\<lambda>r. - int (relevance r)) cands"
  have listing: "matches (document_call query (Returned files)) = map excerpt (take 3 ranked)"
    unfolding ranked_def cands_def texts_def by (rule matches_listing)
  have "filter (\<lambda>m. relevance m = k) (map excerpt (take 3 ranked)) =
        map excerpt (filter (\<lambda>r. relevance r = k) (take 3 ranked))"
    by (simp add: filter_map comp_def relevance_excerpt)
  then have shape: "map source (filter (\<lambda>m. relevance m = k)
                      (matches (document_call query (Returned files)))) =
        map source (filter (\<lambda>r. relevance r = k) (take 3 ranked))"
    unfolding listing by (simp add: comp_def source_excerpt)
  have "subseq (take 3 ranked) ranked"
    by (intro prefix_imp_subseq take_is_prefix)
  then have "subseq (filter (\<lambda>r. relevance r = k) (take 3 ranked))
                    (filter (\<lambda>r. relevance r = k) ranked)"
    by (rule subseq_filter)
  moreover have "filter (\<lambda>r. - int (relevance r) = - int k) ranked =
                 filter (\<lambda>r. - int (relevance r) = - int k) cands"
    unfolding ranked_def by (rule sort_key_stable)
  then have "filter (\<lambda>r. relevance r = k) ranked = filter (\<lambda>r. relevance r = k) cands"
    by simp
  ultimately have "subseq (filter (\<lambda>r. relevance r = k) (take 3 ranked))
                          (filter (\<lambda>r. relevance r = k) cands)"
    by simp
  moreover have "subseq (filter (\<lambda>r. relevance r = k) cands) cands"
    by (rule subseq_filter_left)
  ultimately have "subseq (filter (\<lambda>r. relevance r = k) (take 3 ranked)) cands"
    by (rule subseq_order.trans)
  then have "subseq (map source (filter (\<lambda>r. relevance r = k) (take 3 ranked)))
                    (map source cands)"
    by (rule subseq_map)
  moreover have "subseq (map source cands) (map fst texts)"
    unfolding cands_def by (rule collect_sources)
  ultimately have "subseq (map source (filter (\<lambda>r. relevance r = k) (take 3 ranked)))
                          (map fst texts)"
    by (rule subseq_order.trans)
  moreover have "subseq texts files"
    unfolding texts_def by (rule subseq_filter_left)
  then have "subseq (map fst texts) (map fst files)"
    by (rule subseq_map)
  ultimately have "subseq (map source (filter (\<lambda>r. relevance r = k) (take 3 ranked)))
                          (map fst files)"
    by (rule subseq_order.trans)
  then show ?thesis unfolding shape .
qed

text \<open>
  C7. Whatever the query and the directory, the result list has at most three matches,
  every match has a positive relevance, the relevances go down along the list, and the
  matches of equal relevance come in the order in which the directory lists their files.
\<close>

theorem ranked_matches:
  "length (matches (document_call query readdir)) \<le> 3 \<and>
   (\<forall>m \<in> set (matches (document_call query readdir)). 0 < relevance m) \<and>
   sorted_wrt (\<lambda>a b. relevance b \<le> relevance a) (matches (document_call query readdir)) \<and>
   (\<forall>k. subseq (map source (filter (\<lambda>m. relevance m = k)
                     (matches (document_call query (Returned files)))))
                 (map fst files))"
  using ranked_at_most_three ranked_positive ranked_descending ranked_ties_in_corpus_order
  by blast

theorem ranked_matches_witness:
  "map (\<lambda>m. (source m, relevance m)) (matches (document_call (lit ''Tax'') (Returned sample_corpus))) =
     [(lit ''b.txt'', 2), (lit ''a.txt'', 1), (lit ''d.txt'', 1)] \<and>
   length (matches (document_call (lit ''Tax'') (Returned sample_corpus))) \<le> 3 \<and>
   sorted_wrt (\<lambda>a b. relevance b \<le> relevance a)
     (matches (document_call (lit ''Tax'') (Returned sample_corpus)))"
proof -
  have "map (\<lambda>m. (source m, relevance m)) (matches (document_call (lit ''Tax'') (Returned sample_corpus))) =
     [(lit ''b.txt'', 2), (lit ''a.txt'', 1), (lit ''d.txt'', 1)]"
    by code_simp
  with ranked_matches [of "lit ''Tax''" "Returned sample_corpus"] show ?thesis by blast
qed

section \<open>Verification: excerpts\<close>

lemma split_from_unmatched:
  assumes "\<And>c t. c \<in> set s \<Longrightarrow> match_here sep (c # t) = None"
  shows "split_from sep acc s = [acc @ s]"
  using assms
proof (induction s arbitrary: acc)
  case Nil
  then show ?case by simp
next
  case (Cons c s)
  have "match_here sep (c # s) = None" by (rule Cons.prems) simp
  moreover have "split_from sep (acc @ [c]) s = [(acc @ [c]) @ s]"
    by (rule Cons.IH) (simp add: Cons.prems)
  ultimately show ?case by simp
qed

lemma split_unmatched:
  assumes "s \<noteq> []" and "\<And>c t. c \<in> set s \<Longrightarrow> match_here sep (c # t) = None"
  shows "split sep s = [s]"
  using assms(1) split_from_unmatched [of s sep "[]", OF assms(2)] by (simp add: split_def)

lemma split_words_plain:
  assumes "s \<noteq> []" and "\<forall>c \<in> set s. \<not> isWhiteSpace c"
  shows "split [(Space, Plus)] s = [s]"
  using assms(1)
proof (rule split_unmatched)
  fix c t assume "c \<in> set s"
  with assms(2) show "match_here [(Space, Plus)] (c # t) = None" by simp
qed

lemma split_paragraphs_plain:
  assumes "s \<noteq> []" and "\<forall>c \<in> set s. \<not> isWhiteSpace c"
  shows "split [(Lit 0x0A, One), (Space, Star), (Lit 0x0A, One)] s = [s]"
  using assms(1)
proof (rule split_unmatched)
  fix c t assume "c \<in> set s"
  with assms(2) have "\<not> isWhiteSpace c" by blast
  then have "c \<noteq> 0x0A" by (auto simp: isWhiteSpace_def)
  then show "match_here [(Lit 0x0A, One), (Space, Star), (Lit 0x0A, One)] (c # t) = None"
    by simp
qed

lemma toLowerCase_plain:
  assumes "\<forall>c \<in> set s. lower_unit c = c"
  shows "toLowerCase s = s"
  using assms by (simp add: toLowerCase_def map_idI)

lemma single_plain_document:
  assumes suffix: "endsWith name (lit ''.txt'')"
    and plain_text: "text \<noteq> []" "\<forall>c \<in> set text. \<not> isWhiteSpace c" "\<forall>c \<in> set text. lower_unit c = c"
    and plain_term: "term \<noteq> []" "\<forall>c \<in> set term. \<not> isWhiteSpace c" "\<forall>c \<in> set term. lower_unit c = c"
    and hit: "includes_str text term"
  shows "matches (document_call term (Returned [(name, Returned text)])) =
           [excerpt \<lparr>source = name, relevance = 1, content = text, searchTerms = [term]\<rparr>]"
proof -
  have lower_text: "toLowerCase text = text" using plain_text(3) by (rule toLowerCase_plain)
  have lower_term: "toLowerCase term = term" using plain_term(3) by (rule toLowerCase_plain)
  have terms: "split [(Space, Plus)] (toLowerCase term) = [term]"
    unfolding lower_term using plain_term(1,2) by (rule split_words_plain)
  have words: "split [(Space, Plus)] text = [text]"
    using plain_text(1,2) by (rule split_words_plain)
  have paragraphs: "split [(Lit 0x0A, One), (Space, Star), (Lit 0x0A, One)] text = [text]"
    using plain_text(1,2) by (rule split_paragraphs_plain)
  have score: "calculateRelevance text [term] = 1"
    by (simp add: calculateRelevance_def words lower_text hit)
  have "scoreFile [term] (name, Returned text) =
          Some \<lparr>source = name, relevance = 1, content = text, searchTerms = [term]\<rparr>"
    by (simp add: scoreFile_def Let_def score paragraphs lower_text hit)
  then have "collect [term] [(name, Returned text)] =
          [\<lparr>source = name, relevance = 1, content = text, searchTerms = [term]\<rparr>]"
    by simp
  then show ?thesis
    by (simp add: document_call_def Let_def suffix terms array_sort_def)
qed

lemma long_sample:
  "matches (document_call (lit ''a'') (Returned [(lit ''x.txt'', Returned (replicate 501 0x61))])) =
     [\<lparr>source = lit ''x.txt'', relevance = 1, content = replicate 500 0x61 @ lit ''...''\<rparr>]"
proof -
  have name: "endsWith (lit ''x.txt'') (lit ''.txt'')"
    by (simp add: endsWith_def lit_def)
  have a: "lit ''a'' = [0x61]" by (simp add: lit_def)
  have "(501::nat) = Suc 500" by simp
  then have unfold: "replicate 501 (0x61 :: code_unit) = 0x61 # replicate 500 0x61"
    by (simp only: replicate_Suc)
  have plain: "\<not> isWhiteSpace 0x61" "lower_unit 0x61 = 0x61"
    by (simp_all add: isWhiteSpace_def lower_unit_def)
  have hit: "includes_str (replicate 501 0x61) [0x61]"
    unfolding unfold by simp
  have "matches (document_call [0x61] (Returned [(lit ''x.txt'', Returned (replicate 501 0x61))])) =
      [excerpt \<lparr>source = lit ''x.txt'', relevance = 1, content = replicate 501 0x61,
                searchTerms = [[0x61]]\<rparr>]"
    using name _ _ _ _ _ _ hit by (rule single_plain_document) (simp_all add: plain)
  then show ?thesis
    unfolding a by (simp add: excerpt_def)
qed

text \<open>
  C8 (as stated). The content is cut at 500 code units and the marker \<open>...\<close> is added
  after the cut: for a document whose only paragraph is 501 letters long the excerpt is
  503 code units long.
\<close>

theorem excerpt_longer_than_500_counterexample:
  "map (\<lambda>m. length (content m))
     (matches (document_call (lit ''a'') (Returned [(lit ''x.txt'', Returned (replicate 501 0x61))]))) =
   [503]"
  unfolding long_sample by (simp add: lit_def)

lemma scoreFile_Some_fields:
  assumes "scoreFile terms file = Some r"
  shows "\<exists>text. snd file = Returned text \<and> source r = fst file \<and>
           relevance r = calculateRelevance (toLowerCase text) terms \<and>
           content r =
             join [0x0A, 0x0A]
               (take 3 (filter (\<lambda>paragraph.
                           list_ex (\<lambda>term. includes_str (toLowerCase paragraph) term) terms)
                         (split [(Lit 0x0A, One), (Space, Star), (Lit 0x0A, One)] text)))"
  using assms by (auto simp: scoreFile_def Let_def split: attempt.splits if_splits)

lemma collect_member:
  assumes "r \<in> set (collect terms files)"
  shows "\<exists>f \<in> set files. scoreFile terms f = Some r"
  using assms
proof (induction files)
  case Nil
  then show ?case by simp
next
  case (Cons f fs)
  show ?case
  proof (cases "scoreFile terms f")
    case None
    with Cons show ?thesis by auto
  next
    case (Some result)
    with Cons show ?thesis by auto
  qed
qed

lemma matches_are_excerpts:
  assumes "m \<in> set (matches (document_call query readdir))"
  obtains files r where "readdir = Returned files"
    and "r \<in> set (collect (split [(Space, Plus)] (toLowerCase query))
                     (filter (\<lambda>file. endsWith (fst file) (lit ''.txt'')) files))"
    and "m = excerpt r"
proof (cases readdir)
  case (Threw message)
  with assms show ?thesis by (simp add: matches_no_listing)
next
  case (Returned files)
  define cands where "cands = collect (split [(Space, Plus)] (toLowerCase query))
          (filter (\<lambda>file. endsWith (fst file) (lit ''.txt'')) files)"
  have listing: "matches (document_call query (Returned files)) =
      map excerpt (take 3 (sort_key (\<lambda>r. - int (relevance r)) cands))"
    unfolding cands_def by (rule matches_listing)
  from assms have "m \<in> excerpt ` set (take 3 (sort_key (\<lambda>r. - int (relevance r)) cands))"
    unfolding Returned listing by simp
  then obtain r where r: "r \<in> set (take 3 (sort_key (\<lambda>r. - int (relevance r)) cands))"
    and m: "m = excerpt r"
    by blast
  from r have "r \<in> set (sort_key (\<lambda>r. - int (relevance r)) cands)"
    by (rule in_set_takeD)
  then have "r \<in> set cands" by simp
  with Returned m that show ?thesis unfolding cands_def by blast
qed

text \<open>
  C8 (amended). Every match comes from a readable text file of the directory. Its content
  is the relevant paragraphs of that file, at most three, joined by a blank line, when
  these have at most 500 code units, and otherwise their first 500 code units followed by
  the three full stops of the marker. So the content is at most 503 code units long, and
  one that is longer than 500 is exactly 503 long and ends in the marker.
\<close>

theorem excerpt_is_bounded:
  assumes "m \<in> set (matches (document_call query readdir))"
  shows "length (content m) \<le> 503 \<and>
         (500 < length (content m) \<longrightarrow>
            length (content m) = 503 \<and> drop 500 (content m) = lit ''...'') \<and>
         (\<exists>files name text joined.
            readdir = Returned files \<and> (name, Returned text) \<in> set files \<and>
            endsWith name (lit ''.txt'') \<and> source m = name \<and>
            relevance m =
              calculateRelevance (toLowerCase text) (split [(Space, Plus)] (toLowerCase query)) \<and>
            joined =
              join [0x0A, 0x0A]
                (take 3 (filter (\<lambda>paragraph.
                            list_ex (\<lambda>term. includes_str (toLowerCase paragraph) term)
                              (split [(Space, Plus)] (toLowerCase query)))
                          (split [(Lit 0x0A, One), (Space, Star), (Lit 0x0A, One)] text))) \<and>
            content m =
              (if length joined \<le> 500 then joined else take 500 joined @ lit ''...''))"
proof -
  define terms where "terms = split [(Space, Plus)] (toLowerCase query)"
  from assms obtain files r where listing: "readdir = Returned files"
    and r: "r \<in> set (collect terms (filter (\<lambda>file. endsWith (fst file) (lit ''.txt'')) files))"
    and m: "m = excerpt r"
    unfolding terms_def by (rule matches_are_excerpts)
  from r obtain f where f: "f \<in> set (filter (\<lambda>file. endsWith (fst file) (lit ''.txt'')) files)"
    and scored: "scoreFile terms f = Some r"
    using collect_member by blast
  from scored obtain body where body: "snd f = Returned body" and src: "source r = fst f"
    and rel: "relevance r = calculateRelevance (toLowerCase body) terms"
    and joined: "content r =
             join [0x0A, 0x0A]
               (take 3 (filter (\<lambda>paragraph.
                           list_ex (\<lambda>term. includes_str (toLowerCase paragraph) term) terms)
                         (split [(Lit 0x0A, One), (Space, Star), (Lit 0x0A, One)] body)))"
    using scoreFile_Some_fields by blast
  from body obtain name where f_eq: "f = (name, Returned body)"
    by (cases f) simp
  from f have in_files: "(name, Returned body) \<in> set files"
    and suffix: "endsWith name (lit ''.txt'')"
    unfolding f_eq by simp_all
  have src': "source m = name"
    unfolding m using src by (simp add: source_excerpt f_eq)
  have rel': "relevance m = calculateRelevance (toLowerCase body) terms"
    unfolding m using rel by (simp add: relevance_excerpt)
  have cut: "content m =
      (if length (content r) \<le> 500 then content r else take 500 (content r) @ lit ''...'')"
    unfolding m by (simp add: excerpt_def)
  have bound: "length (content m) \<le> 503"
    unfolding cut by (simp add: lit_def)
  have marker: "length (content m) = 503 \<and> drop 500 (content m) = lit ''...''"
    if "500 < length (content m)"
  proof (cases "length (content r) \<le> 500")
    case True
    with that show ?thesis unfolding cut by simp
  next
    case False
    then have "length (take 500 (content r)) = 500" by simp
    with False show ?thesis unfolding cut by (simp add: lit_def)
  qed
  have origin: "\<exists>files name text joined.
            readdir = Returned files \<and> (name, Returned text) \<in> set files \<and>
            endsWith name (lit ''.txt'') \<and> source m = name \<and>
            relevance m = calculateRelevance (toLowerCase text) terms \<and>
            joined =
              join [0x0A, 0x0A]
                (take 3 (filter (\<lambda>paragraph.
                            list_ex (\<lambda>term. includes_str (toLowerCase paragraph) term) terms)
                          (split [(Lit 0x0A, One), (Space, Star), (Lit 0x0A, One)] text))) \<and>
            content m =
              (if length joined \<le> 500 then joined else take 500 joined @ lit ''...'')"
  proof (intro exI conjI)
    show "readdir = Returned files" by (rule listing)
    show "(name, Returned body) \<in> set files" by (rule in_files)
    show "endsWith name (lit ''.txt'')" by (rule suffix)
    show "source m = name" by (rule src')
    show "relevance m = calculateRelevance (toLowerCase body) terms" by (rule rel')
    show "content r =
              join [0x0A, 0x0A]
                (take 3 (filter (\<lambda>paragraph.
                            list_ex (\<lambda>term. includes_str (toLowerCase paragraph) term) terms)
                          (split [(Lit 0x0A, One), (Space, Star), (Lit 0x0A, One)] body)))"
      by (rule joined)
    show "content m =
      (if length (content r) \<le> 500 then content r else take 500 (content r) @ lit ''...'')"
      by (rule cut)
  qed
  show ?thesis
  proof (intro conjI impI)
    show "length (content m) \<le> 503" by (rule bound)
  next
    assume "500 < length (content m)"
    then show "length (content m) = 503" by (simp add: marker)
  next
    assume "500 < length (content m)"
    then show "drop 500 (content m) = lit ''...''" by (simp add: marker)
  next
    show "\<exists>files name text joined.
            readdir = Returned files \<and> (name, Returned text) \<in> set files \<and>
            endsWith name (lit ''.txt'') \<and> source m = name \<and>
            relevance m =
              calculateRelevance (toLowerCase text) (split [(Space, Plus)] (toLowerCase query)) \<and>
            joined =
              join [0x0A, 0x0A]
                (take 3 (filter (\<lambda>paragraph.
                            list_ex (\<lambda>term. includes_str (toLowerCase paragraph) term)
                              (split [(Space, Plus)] (toLowerCase query)))
                          (split [(Lit 0x0A, One), (Space, Star), (Lit 0x0A, One)] text))) \<and>
            content m =
              (if length joined \<le> 500 then joined else take 500 joined @ lit ''...'')"
      using origin unfolding terms_def .
  qed
qed

theorem excerpt_is_bounded_witness:
  "\<lparr>source = lit ''x.txt'', relevance = 1, content = replicate 500 0x61 @ lit ''...''\<rparr>
     \<in> set (matches (document_call (lit ''a'')
               (Returned [(lit ''x.txt'', Returned (replicate 501 0x61))]))) \<and>
   500 < length (replicate 500 (0x61 :: code_unit) @ lit ''...'') \<and>
   length (replicate 500 (0x61 :: code_unit) @ lit ''...'') = 503 \<and>
   drop 500 (replicate 500 (0x61 :: code_unit) @ lit ''...'') = lit ''...''"
proof -
  have a: "\<lparr>source = lit ''x.txt'', relevance = 1, content = replicate 500 0x61 @ lit ''...''\<rparr>
     \<in> set (matches (document_call (lit ''a'')
               (Returned [(lit ''x.txt'', Returned (replicate 501 0x61))])))"
    unfolding long_sample by simp
  have b: "500 < length (replicate 500 (0x61 :: code_unit) @ lit ''...'')"
    by (simp add: lit_def)
  from excerpt_is_bounded [OF a]
  have "500 < length (replicate 500 (0x61 :: code_unit) @ lit ''...'') \<longrightarrow>
          length (replicate 500 (0x61 :: code_unit) @ lit ''...'') = 503 \<and>
          drop 500 (replicate 500 (0x61 :: code_unit) @ lit ''...'') = lit ''...''"
    by simp
  with a b show ?thesis by blast
qed

end
